theory Spec2Isabelle
  imports Main
begin

section \<open>Data model (shared/schema.ts)\<close>

text \<open>
  The four tables of \<^verbatim>\<open>shared/schema.ts\<close> as records, one per row type. Field names
  carry a short table prefix because the tables share column names (\<^verbatim>\<open>id\<close>,
  \<^verbatim>\<open>eventId\<close>, ...): \<open>ev_\<close> events, \<open>to_\<close> time\_options, \<open>pt_\<close> participants,
  \<open>av_\<close> availability. Serial and integer columns are \<open>int\<close>, text columns are
  \<open>string\<close>, the nullable description is an option. The \<^verbatim>\<open>createdAt\<close> columns
  (\<^verbatim>\<open>defaultNow()\<close>) are left out of the rows: no operation of the server or of
  the selection functions reads them.
\<close>

record event =
  ev_id :: int
  ev_title :: string
  ev_description :: "string option"
  ev_duration :: string
  ev_shareId :: string

record timeOption =
  to_id :: int
  to_eventId :: int
  to_date :: string
  to_startTime :: string
  to_endTime :: string

record participant =
  pt_id :: int
  pt_eventId :: int
  pt_name :: string

record availabilityRow =
  av_id :: int
  av_participantId :: int
  av_timeOptionId :: int
  av_status :: string

text \<open>
  The extended types for API responses. \<^verbatim>\<open>TimeOptionWithAvailability\<close> is
  \<^verbatim>\<open>TimeOption & {availabilityCount, participants}\<close>: a record extension.
\<close>

record availability_count =
  available :: nat
  maybe :: nat
  unavailable :: nat
  total :: nat

record participantStatus =
  ps_id :: int
  ps_name :: string
  ps_status :: string

record timeOptionWithAvailability = timeOption +
  availabilityCount :: availability_count
  to_participants :: "participantStatus list"

section \<open>Best time slot selection (client lib/utils.ts)\<close>

text \<open>
  \<^verbatim>\<open>Math.max(...xs)\<close>: the largest argument, and \<^verbatim>\<open>-Infinity\<close> for no argument at
  all, which is \<open>None\<close> here. A count never equals \<^verbatim>\<open>-Infinity\<close>.
\<close>

fun Math_max :: "nat list \<Rightarrow> nat option" where
  "Math_max [] = None"
| "Math_max (x # xs) = Some (fold max xs x)"

text \<open>
  The callback of the \<^verbatim>\<open>reduce\<close> in \<^verbatim>\<open>getBestTimeSlot\<close>: more "available" wins,
  on a tie strictly fewer "maybe" wins, otherwise the accumulator stays.
\<close>

definition better :: "timeOptionWithAvailability \<Rightarrow> timeOptionWithAvailability \<Rightarrow> timeOptionWithAvailability" where
  "better best current =
     (let currentAvailable = available (availabilityCount current);
          bestAvailable = available (availabilityCount best)
      in if currentAvailable > bestAvailable then current
         else if currentAvailable = bestAvailable then
           (if maybe (availabilityCount current) < maybe (availabilityCount best) then current else best)
         else best)"

text \<open>
  \<^verbatim>\<open>reduce\<close> without an initial value starts from the first element and folds the
  rest from the left; the empty list is answered \<^verbatim>\<open>null\<close> before the reduce.
\<close>

definition getBestTimeSlot :: "timeOptionWithAvailability list \<Rightarrow> timeOptionWithAvailability option" where
  "getBestTimeSlot timeOptions =
     (case timeOptions of
        [] \<Rightarrow> None
      | first # rest \<Rightarrow> Some (foldl better first rest))"

definition getBestTimeSlotIds :: "timeOptionWithAvailability list \<Rightarrow> int list" where
  "getBestTimeSlotIds timeOptions =
     (if length timeOptions = 0 then []
      else
        let totalResponses = foldl (\<lambda>sum option. sum + total (availabilityCount option)) 0 timeOptions
        in if totalResponses = 0 then []
           else
             let maxAvailable = Math_max (map (\<lambda>option. available (availabilityCount option)) timeOptions);
                 topAvailableOptions =
                   filter (\<lambda>option. Some (available (availabilityCount option)) = maxAvailable) timeOptions;
                 maxMaybe = Math_max (map (\<lambda>option. maybe (availabilityCount option)) topAvailableOptions)
             in map to_id
                  (filter (\<lambda>option. Some (maybe (availabilityCount option)) = maxMaybe) topAvailableOptions))"

text \<open>
  The vocabulary of the selection claims: the options of a list that reach the largest
  "available" count, and the largest and the smallest "maybe" count among those.
\<close>

definition avail :: "timeOptionWithAvailability \<Rightarrow> nat" where
  "avail option = available (availabilityCount option)"

definition mayb :: "timeOptionWithAvailability \<Rightarrow> nat" where
  "mayb option = maybe (availabilityCount option)"

definition maxAvail :: "timeOptionWithAvailability list \<Rightarrow> nat" where
  "maxAvail timeOptions = Max (avail ` set timeOptions)"

definition topAvail :: "timeOptionWithAvailability list \<Rightarrow> timeOptionWithAvailability list" where
  "topAvail timeOptions = filter (\<lambda>option. avail option = maxAvail timeOptions) timeOptions"

definition maxMaybeTop :: "timeOptionWithAvailability list \<Rightarrow> nat" where
  "maxMaybeTop timeOptions = Max (mayb ` set (topAvail timeOptions))"

definition minMaybeTop :: "timeOptionWithAvailability list \<Rightarrow> nat" where
  "minMaybeTop timeOptions = Min (mayb ` set (topAvail timeOptions))"

text \<open>
  \<open>sb x y\<close>: the reduce of \<^verbatim>\<open>getBestTimeSlot\<close> replaces an accumulator \<open>y\<close> by \<open>x\<close>.
\<close>

definition sb :: "timeOptionWithAvailability \<Rightarrow> timeOptionWithAvailability \<Rightarrow> bool" where
  "sb x y = (avail x > avail y \<or> (avail x = avail y \<and> mayb x < mayb y))"

text \<open>
  A count is consistent when its three buckets fit into its total, as every count that
  \<open>getEventByShareId\<close> builds from a list of responses is (lemma
  \<open>availabilityCountOf_consistent\<close> below).
\<close>

definition consistent :: "availability_count \<Rightarrow> bool" where
  "consistent c = (available c + maybe c + unavailable c \<le> total c)"

text \<open>A constructor for concrete options, used in the worked examples.\<close>

definition mkOption :: "int \<Rightarrow> nat \<Rightarrow> nat \<Rightarrow> nat \<Rightarrow> timeOptionWithAvailability" where
  "mkOption i a m u =
     \<lparr>to_id = i, to_eventId = 1, to_date = ''2024-06-01'', to_startTime = ''12:00'', to_endTime = ''13:00'',
      availabilityCount = \<lparr>available = a, maybe = m, unavailable = u, total = a + m + u\<rparr>,
      to_participants = []\<rparr>"

section \<open>The database (server/db.ts: drizzle over PostgreSQL)\<close>

text \<open>
  The state of the server is the database: the four tables, each a list of rows in
  insertion order (a \<^verbatim>\<open>select\<close> without \<^verbatim>\<open>ORDER BY\<close> is modelled as returning
  that order), and the sequence behind each \<^verbatim>\<open>serial\<close> column, which holds the last
  id it issued. \<open>writesLeft\<close> is the connection: how many more write statements it
  carries out before a statement fails (\<open>None\<close>: no statement fails). The environment
  sets it anew for every request, so a statement may fail at any point of any request.
  A failed statement changes nothing (the sequence stays where it was too: only the
  freshness of the ids matters). Select statements are modelled as succeeding; a
  failing select would change no row.
\<close>

record database =
  events :: "event list"
  time_options :: "timeOption list"
  participants :: "participant list"
  availability :: "availabilityRow list"
  events_id_seq :: int
  time_options_id_seq :: int
  participants_id_seq :: int
  availability_id_seq :: int
  writesLeft :: "nat option"

datatype error = ZodError | DatabaseError

definition initial :: database where
  "initial =
     \<lparr>events = [], time_options = [], participants = [], availability = [],
      events_id_seq = 0, time_options_id_seq = 0, participants_id_seq = 0, availability_id_seq = 0,
      writesLeft = None\<rparr>"

definition refuses :: "database \<Rightarrow> bool" where
  "refuses d = (writesLeft d = Some 0)"

definition carriedOut :: "database \<Rightarrow> database" where
  "carriedOut d = d\<lparr>writesLeft := map_option (\<lambda>n. n - 1) (writesLeft d)\<rparr>"

text \<open>
  The types of the values to insert (\<^verbatim>\<open>InsertEvent\<close>, \<^verbatim>\<open>Omit<InsertTimeOption,
  "eventId">\<close>, \<^verbatim>\<open>Omit<InsertAvailability, "participantId">\<close> and
  \<^verbatim>\<open>InsertAvailability\<close>).
\<close>

record insertEvent =
  ie_title :: string
  ie_description :: "string option"
  ie_duration :: string

record timeOptionDraft =
  td_date :: string
  td_startTime :: string
  td_endTime :: string

record availabilityItem =
  ai_timeOptionId :: int
  ai_status :: string

record insertAvailability = availabilityItem +
  ia_participantId :: int

text \<open>
  \<^verbatim>\<open>db.insert(events).values(..).returning()\<close>. The statement fails when the
  connection fails or when the share id is taken (\<^verbatim>\<open>share_id\<close> is \<^verbatim>\<open>unique\<close>); a
  failed statement changes nothing.
\<close>

definition insert_events :: "string \<Rightarrow> string option \<Rightarrow> string \<Rightarrow> string \<Rightarrow> database \<Rightarrow> (error + event) \<times> database" where
  "insert_events title description duration shareId d =
     (if refuses d \<or> shareId \<in> set (map ev_shareId (events d)) then (Inl DatabaseError, d)
      else
        let row = \<lparr>ev_id = events_id_seq d + 1, ev_title = title, ev_description = description,
                   ev_duration = duration, ev_shareId = shareId\<rparr>
        in (Inr row, carriedOut (d\<lparr>events := events d @ [row], events_id_seq := events_id_seq d + 1\<rparr>)))"

definition insert_time_options :: "int \<Rightarrow> timeOptionDraft \<Rightarrow> database \<Rightarrow> (error + timeOption) \<times> database" where
  "insert_time_options eventId timeOption d =
     (if refuses d then (Inl DatabaseError, d)
      else
        let row = \<lparr>to_id = time_options_id_seq d + 1, to_eventId = eventId, to_date = td_date timeOption,
                   to_startTime = td_startTime timeOption, to_endTime = td_endTime timeOption\<rparr>
        in (Inr row,
            carriedOut (d\<lparr>time_options := time_options d @ [row],
                            time_options_id_seq := time_options_id_seq d + 1\<rparr>)))"

definition insert_participants :: "string \<Rightarrow> int \<Rightarrow> database \<Rightarrow> (error + participant) \<times> database" where
  "insert_participants name eventId d =
     (if refuses d then (Inl DatabaseError, d)
      else
        let row = \<lparr>pt_id = participants_id_seq d + 1, pt_eventId = eventId, pt_name = name\<rparr>
        in (Inr row,
            carriedOut (d\<lparr>participants := participants d @ [row],
                            participants_id_seq := participants_id_seq d + 1\<rparr>)))"

text \<open>\<^verbatim>\<open>db.delete(availability).where(eq(availability.participantId, participantId))\<close>.\<close>

definition delete_availability :: "int \<Rightarrow> database \<Rightarrow> (error + unit) \<times> database" where
  "delete_availability participantId d =
     (if refuses d then (Inl DatabaseError, d)
      else (Inr (),
            carriedOut (d\<lparr>availability := filter (\<lambda>a. av_participantId a \<noteq> participantId) (availability d)\<rparr>)))"

text \<open>
  \<^verbatim>\<open>db.insert(availability).values(availabilityData)\<close>: one statement for the whole
  list; the rows take consecutive ids.
\<close>

fun serials :: "int \<Rightarrow> insertAvailability list \<Rightarrow> availabilityRow list" where
  "serials n [] = []"
| "serials n (v # vs) =
     \<lparr>av_id = n + 1, av_participantId = ia_participantId v, av_timeOptionId = ai_timeOptionId v,
      av_status = ai_status v\<rparr> # serials (n + 1) vs"

definition insert_availability :: "insertAvailability list \<Rightarrow> database \<Rightarrow> (error + unit) \<times> database" where
  "insert_availability availabilityData d =
     (if refuses d then (Inl DatabaseError, d)
      else (Inr (),
            carriedOut (d\<lparr>availability := availability d @ serials (availability_id_seq d) availabilityData,
                            availability_id_seq := availability_id_seq d + int (length availabilityData)\<rparr>)))"

section \<open>The storage layer (server/storage.ts)\<close>

record eventWithTimeOptions = event +
  ewt_timeOptions :: "timeOption list"

record eventWithDetails = event +
  ewd_timeOptions :: "timeOptionWithAvailability list"
  participantCount :: nat

text \<open>
  The \<^verbatim>\<open>for\<close> loop of \<^verbatim>\<open>createEvent\<close>: one insert per time option, in input order;
  a failing insert throws out of the loop, and what was inserted before stays.
\<close>

fun insertTimeOptions :: "int \<Rightarrow> timeOptionDraft list \<Rightarrow> timeOption list \<Rightarrow> database \<Rightarrow> (error + timeOption list) \<times> database" where
  "insertTimeOptions eventId [] createdTimeOptions d = (Inr createdTimeOptions, d)"
| "insertTimeOptions eventId (timeOption # rest) createdTimeOptions d =
     (case insert_time_options eventId timeOption d of
        (Inl e, d') \<Rightarrow> (Inl e, d')
      | (Inr newTimeOption, d') \<Rightarrow> insertTimeOptions eventId rest (createdTimeOptions @ [newTimeOption]) d')"

text \<open>
  \<^verbatim>\<open>event.description || null\<close>: \<^verbatim>\<open>null\<close> for a missing, a null and an empty
  description.
\<close>

definition orNull :: "string option \<Rightarrow> string option" where
  "orNull description = (case description of None \<Rightarrow> None | Some s \<Rightarrow> if s = [] then None else Some s)"

text \<open>
  \<open>createEvent\<close>. Its first argument is the outcome of \<^verbatim>\<open>nanoid(10)\<close>, which the
  environment draws.
\<close>

definition createEvent :: "string \<Rightarrow> insertEvent \<Rightarrow> timeOptionDraft list \<Rightarrow> database \<Rightarrow> (error + eventWithTimeOptions) \<times> database" where
  "createEvent nanoid event timeOptionsList d =
     (let shareId = nanoid in
      case insert_events (ie_title event) (orNull (ie_description event)) (ie_duration event) shareId d of
        (Inl e, d1) \<Rightarrow> (Inl e, d1)
      | (Inr newEvent, d1) \<Rightarrow>
          (case insertTimeOptions (ev_id newEvent) timeOptionsList [] d1 of
             (Inl e, d2) \<Rightarrow> (Inl e, d2)
           | (Inr createdTimeOptions, d2) \<Rightarrow>
               (Inr \<lparr>ev_id = ev_id newEvent, ev_title = ev_title newEvent,
                     ev_description = ev_description newEvent, ev_duration = ev_duration newEvent,
                     ev_shareId = ev_shareId newEvent, ewt_timeOptions = createdTimeOptions\<rparr>, d2)))"

text \<open>
  The count built for one time option inside \<open>getEventByShareId\<close> from its responses
  (the binding \<^verbatim>\<open>const availabilityCount = {...}\<close>), and the entry built for one
  response (\<^verbatim>\<open>participant?.name || "Unknown"\<close>: a missing participant and an empty
  name both give "Unknown").
\<close>

definition availabilityCountOf :: "availabilityRow list \<Rightarrow> availability_count" where
  "availabilityCountOf availabilityData =
     \<lparr>available = length (filter (\<lambda>a. av_status a = ''available'') availabilityData),
      maybe = length (filter (\<lambda>a. av_status a = ''maybe'') availabilityData),
      unavailable = length (filter (\<lambda>a. av_status a = ''unavailable'') availabilityData),
      total = length availabilityData\<rparr>"

definition participantWithStatus :: "database \<Rightarrow> availabilityRow \<Rightarrow> participantStatus" where
  "participantWithStatus d a =
     \<lparr>ps_id = av_participantId a,
      ps_name =
        (case filter (\<lambda>p. pt_id p = av_participantId a) (participants d) of
           [] \<Rightarrow> ''Unknown''
         | participant # _ \<Rightarrow> if pt_name participant = [] then ''Unknown'' else pt_name participant),
      ps_status = av_status a\<rparr>"

definition withAvailability :: "database \<Rightarrow> timeOption \<Rightarrow> timeOptionWithAvailability" where
  "withAvailability d timeOption =
     (let availabilityData = filter (\<lambda>a. av_timeOptionId a = to_id timeOption) (availability d);
          availabilityCount = availabilityCountOf availabilityData;
          participantsWithStatus = map (participantWithStatus d) availabilityData
      in \<lparr>to_id = to_id timeOption, to_eventId = to_eventId timeOption, to_date = to_date timeOption,
          to_startTime = to_startTime timeOption, to_endTime = to_endTime timeOption,
          availabilityCount = availabilityCount, to_participants = participantsWithStatus\<rparr>)"

definition getEventByShareId :: "string \<Rightarrow> database \<Rightarrow> eventWithDetails option" where
  "getEventByShareId shareId d =
     (case filter (\<lambda>e. ev_shareId e = shareId) (events d) of
        [] \<Rightarrow> None
      | event # _ \<Rightarrow>
          let eventTimeOptions = filter (\<lambda>t. to_eventId t = ev_id event) (time_options d);
              eventParticipants = filter (\<lambda>p. pt_eventId p = ev_id event) (participants d);
              timeOptionsWithAvailability = map (withAvailability d) eventTimeOptions
          in Some \<lparr>ev_id = ev_id event, ev_title = ev_title event, ev_description = ev_description event,
                   ev_duration = ev_duration event, ev_shareId = ev_shareId event,
                   ewd_timeOptions = timeOptionsWithAvailability,
                   participantCount = length eventParticipants\<rparr>)"

definition createParticipant :: "string \<Rightarrow> int \<Rightarrow> database \<Rightarrow> (error + participant) \<times> database" where
  "createParticipant name eventId d = insert_participants name eventId d"

definition getParticipantsByEventId :: "int \<Rightarrow> database \<Rightarrow> participant list" where
  "getParticipantsByEventId eventId d = filter (\<lambda>p. pt_eventId p = eventId) (participants d)"

text \<open>\<^verbatim>\<open>availabilityList.map(item => ({ ...item, participantId }))\<close>.\<close>

definition withParticipantId :: "int \<Rightarrow> availabilityItem list \<Rightarrow> insertAvailability list" where
  "withParticipantId participantId availabilityList =
     map (\<lambda>item. \<lparr>ai_timeOptionId = ai_timeOptionId item, ai_status = ai_status item,
                    ia_participantId = participantId\<rparr>) availabilityList"

definition setAvailability :: "int \<Rightarrow> availabilityItem list \<Rightarrow> database \<Rightarrow> (error + unit) \<times> database" where
  "setAvailability participantId availabilityList d =
     (case delete_availability participantId d of
        (Inl e, d1) \<Rightarrow> (Inl e, d1)
      | (Inr _, d1) \<Rightarrow>
          if length availabilityList > 0 then
            let availabilityData = withParticipantId participantId availabilityList
            in insert_availability availabilityData d1
          else (Inr (), d1))"

section \<open>The API boundary (server/routes.ts)\<close>

text \<open>
  A request body is a JSON value (\<^verbatim>\<open>req.body\<close> after \<^verbatim>\<open>express.json()\<close>). JSON
  numbers are modelled as integers, the values an \<^verbatim>\<open>integer\<close> column stores. An
  object is the list of its properties; a property is read at its first occurrence.
\<close>

datatype json =
  JNull
| JBool bool
| JNumber int
| JString string
| JArray "json list"
| JObject "(string \<times> json) list"

text \<open>
  The zod combinators the two request schemas are built from. A failed
  \<^verbatim>\<open>schema.parse\<close> throws a \<^verbatim>\<open>ZodError\<close>; \<^verbatim>\<open>z.object\<close> drops the properties it
  does not name. \<^verbatim>\<open>z.array\<close> has no length bound of its own and asks nothing of its
  elements beyond the element schema. \<open>nullish\<close> is \<^verbatim>\<open>.nullable().optional()\<close>, which
  drizzle-zod gives a nullable column.
\<close>

definition andThen :: "error + 'a \<Rightarrow> ('a \<Rightarrow> error + 'b) \<Rightarrow> error + 'b" where
  "andThen r f = (case r of Inl e \<Rightarrow> Inl e | Inr x \<Rightarrow> f x)"

fun z_string :: "json \<Rightarrow> error + string" where
  "z_string (JString s) = Inr s"
| "z_string _ = Inl ZodError"

fun z_number :: "json \<Rightarrow> error + int" where
  "z_number (JNumber n) = Inr n"
| "z_number _ = Inl ZodError"

definition z_enum :: "string list \<Rightarrow> json \<Rightarrow> error + string" where
  "z_enum values j = andThen (z_string j) (\<lambda>s. if s \<in> set values then Inr s else Inl ZodError)"

fun traverse :: "('a \<Rightarrow> error + 'b) \<Rightarrow> 'a list \<Rightarrow> error + 'b list" where
  "traverse p [] = Inr []"
| "traverse p (x # xs) = andThen (p x) (\<lambda>y. andThen (traverse p xs) (\<lambda>ys. Inr (y # ys)))"

fun z_array :: "(json \<Rightarrow> error + 'a) \<Rightarrow> json \<Rightarrow> error + 'a list" where
  "z_array p (JArray xs) = traverse p xs"
| "z_array p _ = Inl ZodError"

fun z_object :: "json \<Rightarrow> error + (string \<times> json) list" where
  "z_object (JObject properties) = Inr properties"
| "z_object _ = Inl ZodError"

definition required :: "(json \<Rightarrow> error + 'a) \<Rightarrow> string \<Rightarrow> (string \<times> json) list \<Rightarrow> error + 'a" where
  "required p key properties = (case map_of properties key of None \<Rightarrow> Inl ZodError | Some v \<Rightarrow> p v)"

definition nullish :: "(json \<Rightarrow> error + 'a) \<Rightarrow> string \<Rightarrow> (string \<times> json) list \<Rightarrow> error + 'a option" where
  "nullish p key properties =
     (case map_of properties key of
        None \<Rightarrow> Inr None
      | Some JNull \<Rightarrow> Inr None
      | Some v \<Rightarrow> andThen (p v) (\<lambda>x. Inr (Some x)))"

text \<open>
  \<^verbatim>\<open>insertEventSchema\<close> (title, optional description, duration) and
  \<^verbatim>\<open>insertParticipantSchema.omit({ eventId: true })\<close> (name), from shared/schema.ts.
\<close>

definition insertEventSchema :: "json \<Rightarrow> error + insertEvent" where
  "insertEventSchema j =
     andThen (z_object j) (\<lambda>properties.
     andThen (required z_string ''title'' properties) (\<lambda>title.
     andThen (nullish z_string ''description'' properties) (\<lambda>description.
     andThen (required z_string ''duration'' properties) (\<lambda>duration.
     Inr \<lparr>ie_title = title, ie_description = description, ie_duration = duration\<rparr>))))"

record participantDraft =
  pd_name :: string

definition insertParticipantSchema_omit_eventId :: "json \<Rightarrow> error + participantDraft" where
  "insertParticipantSchema_omit_eventId j =
     andThen (z_object j) (\<lambda>properties.
     andThen (required z_string ''name'' properties) (\<lambda>name.
     Inr \<lparr>pd_name = name\<rparr>))"

record createEventRequest =
  rq_event :: insertEvent
  rq_timeOptions :: "timeOptionDraft list"

record participateRequest =
  rq_participant :: participantDraft
  rq_availability :: "availabilityItem list"

definition timeOptionSchema :: "json \<Rightarrow> error + timeOptionDraft" where
  "timeOptionSchema j =
     andThen (z_object j) (\<lambda>properties.
     andThen (required z_string ''date'' properties) (\<lambda>date.
     andThen (required z_string ''startTime'' properties) (\<lambda>startTime.
     andThen (required z_string ''endTime'' properties) (\<lambda>endTime.
     Inr \<lparr>td_date = date, td_startTime = startTime, td_endTime = endTime\<rparr>))))"

definition createEventRequestSchema :: "json \<Rightarrow> error + createEventRequest" where
  "createEventRequestSchema j =
     andThen (z_object j) (\<lambda>properties.
     andThen (required insertEventSchema ''event'' properties) (\<lambda>event.
     andThen (required (z_array timeOptionSchema) ''timeOptions'' properties) (\<lambda>timeOptions.
     Inr \<lparr>rq_event = event, rq_timeOptions = timeOptions\<rparr>)))"

definition availabilityItemSchema :: "json \<Rightarrow> error + availabilityItem" where
  "availabilityItemSchema j =
     andThen (z_object j) (\<lambda>properties.
     andThen (required z_number ''timeOptionId'' properties) (\<lambda>timeOptionId.
     andThen (required (z_enum [''available'', ''maybe'', ''unavailable'']) ''status'' properties) (\<lambda>status.
     Inr \<lparr>ai_timeOptionId = timeOptionId, ai_status = status\<rparr>)))"

definition participateRequestSchema :: "json \<Rightarrow> error + participateRequest" where
  "participateRequestSchema j =
     andThen (z_object j) (\<lambda>properties.
     andThen (required insertParticipantSchema_omit_eventId ''participant'' properties) (\<lambda>participant.
     andThen (required (z_array availabilityItemSchema) ''availability'' properties) (\<lambda>availabilityList.
     Inr \<lparr>rq_participant = participant, rq_availability = availabilityList\<rparr>)))"

text \<open>
  A response is either \<^verbatim>\<open>res.json(value)\<close> (status 200) or
  \<^verbatim>\<open>res.status(code).json({ error: message })\<close>.
\<close>

datatype 'a response = Json 'a | Status nat string

record participateReply =
  pr_success :: bool
  pr_participantId :: int

text \<open>\<^verbatim>\<open>POST /api/events\<close>. Everything thrown inside the \<^verbatim>\<open>try\<close> is answered 400.\<close>

definition post_events :: "string \<Rightarrow> json \<Rightarrow> database \<Rightarrow> eventWithTimeOptions response \<times> database" where
  "post_events nanoid body d =
     (case createEventRequestSchema body of
        Inl _ \<Rightarrow> (Status 400 ''Invalid request data'', d)
      | Inr parsed \<Rightarrow>
          (case createEvent nanoid (rq_event parsed) (rq_timeOptions parsed) d of
             (Inl _, d') \<Rightarrow> (Status 400 ''Invalid request data'', d')
           | (Inr createdEvent, d') \<Rightarrow> (Json createdEvent, d')))"


text \<open>
  \<^verbatim>\<open>POST /api/events/:shareId/participate\<close>. \<open>toLowerCase\<close> is JavaScript's
  \<^verbatim>\<open>String.prototype.toLowerCase\<close>, a parameter of the model. \<open>resolveParticipant\<close>
  is the part of the handler that finds the participant of that name, compared in
  lower case, or creates one.
\<close>

definition resolveParticipant :: "(string \<Rightarrow> string) \<Rightarrow> participantDraft \<Rightarrow> int \<Rightarrow> database \<Rightarrow> (error + int) \<times> database" where
  "resolveParticipant toLowerCase participant eventId d =
     (let existingParticipants = getParticipantsByEventId eventId d;
          existingParticipant =
            List.find (\<lambda>p. toLowerCase (pt_name p) = toLowerCase (pd_name participant)) existingParticipants
      in case existingParticipant of
           Some p \<Rightarrow> (Inr (pt_id p), d)
         | None \<Rightarrow>
             (case createParticipant (pd_name participant) eventId d of
                (Inl e, d') \<Rightarrow> (Inl e, d')
              | (Inr newParticipant, d') \<Rightarrow> (Inr (pt_id newParticipant), d')))"

definition post_participate :: "(string \<Rightarrow> string) \<Rightarrow> string \<Rightarrow> json \<Rightarrow> database \<Rightarrow> participateReply response \<times> database" where
  "post_participate toLowerCase shareId body d =
     (case participateRequestSchema body of
        Inl _ \<Rightarrow> (Status 400 ''Invalid request data'', d)
      | Inr parsed \<Rightarrow>
          (case getEventByShareId shareId d of
             None \<Rightarrow> (Status 404 ''Event not found'', d)
           | Some event \<Rightarrow>
               (case resolveParticipant toLowerCase (rq_participant parsed) (ev_id event) d of
                  (Inl _, d1) \<Rightarrow> (Status 400 ''Invalid request data'', d1)
                | (Inr pid, d1) \<Rightarrow>
                    (case setAvailability pid (rq_availability parsed) d1 of
                       (Inl _, d2) \<Rightarrow> (Status 400 ''Invalid request data'', d2)
                     | (Inr _, d2) \<Rightarrow> (Json \<lparr>pr_success = True, pr_participantId = pid\<rparr>, d2)))))"

section \<open>The create-event form (client pages/create-event.tsx)\<close>

text \<open>
  The state of the form: the fields that \<^verbatim>\<open>formSchema\<close> describes, and the list of
  time options the organizer is editing.
\<close>

record formData =
  fd_title :: string
  fd_description :: "string option"
  fd_duration :: string
  fd_organizerName :: string

record formTimeOption =
  ft_date :: string
  ft_startTime :: string
  ft_availability :: string

text \<open>
  \<^verbatim>\<open>onSubmit\<close>: the time options that are complete (a date, and a start time unless the
  duration is in days) are kept; with none left the form shows an error and sends
  nothing (\<open>None\<close>); otherwise it posts the request body (\<open>Some\<close>).
  \<open>calculateEndTime\<close> only computes the text of the \<^verbatim>\<open>endTime\<close> property; it is a
  parameter here. (\<^verbatim>\<open>form.handleSubmit\<close> calls \<^verbatim>\<open>onSubmit\<close> only with form data that
  \<^verbatim>\<open>formSchema\<close> accepts; \<open>onSubmit\<close> itself does not look at that.)
\<close>

definition isMultiDay :: "string \<Rightarrow> bool" where
  "isMultiDay duration = (duration \<in> set [''2 days'', ''3 days'', ''4 days'', ''A week''])"

definition validTimeOptions :: "string \<Rightarrow> formTimeOption list \<Rightarrow> formTimeOption list" where
  "validTimeOptions duration timeOptions =
     filter (\<lambda>option. if isMultiDay duration then ft_date option \<noteq> []
                      else ft_date option \<noteq> [] \<and> ft_startTime option \<noteq> []) timeOptions"

definition timeOptionWithEndTime :: "(string \<Rightarrow> string \<Rightarrow> string) \<Rightarrow> string \<Rightarrow> formTimeOption \<Rightarrow> json" where
  "timeOptionWithEndTime calculateEndTime duration option =
     JObject [(''date'', JString (ft_date option)),
              (''startTime'', JString (if isMultiDay duration then ''09:00'' else ft_startTime option)),
              (''availability'', JString (ft_availability option)),
              (''endTime'',
               JString (calculateEndTime (if isMultiDay duration then ''09:00'' else ft_startTime option) duration))]"

text \<open>The form data as JSON: an absent description is left out.\<close>

definition formDataJson :: "formData \<Rightarrow> json" where
  "formDataJson data =
     JObject ([(''title'', JString (fd_title data))]
              @ (case fd_description data of None \<Rightarrow> [] | Some s \<Rightarrow> [(''description'', JString s)])
              @ [(''duration'', JString (fd_duration data)), (''organizerName'', JString (fd_organizerName data))])"

definition onSubmit :: "(string \<Rightarrow> string \<Rightarrow> string) \<Rightarrow> formData \<Rightarrow> formTimeOption list \<Rightarrow> json option" where
  "onSubmit calculateEndTime data timeOptions =
     (let valid = validTimeOptions (fd_duration data) timeOptions
      in if length valid = 0 then None
         else
           let timeOptionsWithEndTime = map (timeOptionWithEndTime calculateEndTime (fd_duration data)) valid
           in Some (JObject [(''event'', formDataJson data), (''timeOptions'', JArray timeOptionsWithEndTime)]))"

section \<open>The server as a transition system\<close>

text \<open>
  \<open>run\<close> handles one request at a time: each request runs to completion before the
  next one starts. The handlers await between their statements with no transaction
  around them, so requests that overlap can reach states that \<open>run\<close> does not; what
  overlapping calls of \<open>setAvailability\<close> do is modelled statement by statement
  further down (\<open>execute\<close>, \<open>interleavings\<close>). A request comes with what the
  environment decides for it: the state of the connection and, for an event creation,
  the share id that \<^verbatim>\<open>nanoid\<close> draws.
\<close>

datatype request =
  PostEvents string json
| GetEvent string
| PostParticipate string json

fun handle :: "(string \<Rightarrow> string) \<Rightarrow> nat option \<times> request \<Rightarrow> database \<Rightarrow> database" where
  "handle toLowerCase (w, PostEvents nanoid body) d = snd (post_events nanoid body (d\<lparr>writesLeft := w\<rparr>))"
| "handle toLowerCase (w, GetEvent shareId) d = d\<lparr>writesLeft := w\<rparr>"
| "handle toLowerCase (w, PostParticipate shareId body) d =
     snd (post_participate toLowerCase shareId body (d\<lparr>writesLeft := w\<rparr>))"

definition run :: "(string \<Rightarrow> string) \<Rightarrow> (nat option \<times> request) list \<Rightarrow> database \<Rightarrow> database" where
  "run toLowerCase requests d = fold (handle toLowerCase) requests d"

text \<open>
  Request bodies as the client builds them, and a lower-casing of the ASCII letters, for
  the worked examples.
\<close>

definition createEventBody :: "string \<Rightarrow> string \<Rightarrow> (string \<times> string \<times> string) list \<Rightarrow> json" where
  "createEventBody title duration slots =
     JObject [(''event'', JObject [(''title'', JString title), (''duration'', JString duration)]),
              (''timeOptions'',
               JArray (map (\<lambda>(date, startTime, endTime).
                              JObject [(''date'', JString date), (''startTime'', JString startTime),
                                       (''endTime'', JString endTime)]) slots))]"

definition participateBody :: "string \<Rightarrow> (int \<times> string) list \<Rightarrow> json" where
  "participateBody name answers =
     JObject [(''participant'', JObject [(''name'', JString name)]),
              (''availability'',
               JArray (map (\<lambda>(timeOptionId, status).
                              JObject [(''timeOptionId'', JNumber timeOptionId), (''status'', JString status)])
                         answers))]"

definition asciiLower :: "string \<Rightarrow> string" where
  "asciiLower s =
     map (\<lambda>c. case map_of (zip ''ABCDEFGHIJKLMNOPQRSTUVWXYZ'' ''abcdefghijklmnopqrstuvwxyz'') c of
                 None \<Rightarrow> c
               | Some l \<Rightarrow> l) s"

section \<open>Vocabulary of the server claims\<close>

text \<open>How many of \<open>n\<close> write statements the connection carries out.\<close>

definition carried :: "nat \<Rightarrow> database \<Rightarrow> nat" where
  "carried n d = (case writesLeft d of None \<Rightarrow> n | Some k \<Rightarrow> min k n)"

text \<open>
  The rows that inserting the drafts \<open>ts\<close> one after the other produces for the event
  \<open>eventId\<close> when the sequence stands at \<open>n\<close>: input order, consecutive ids, each row
  tagged with the event's id.
\<close>

fun stored :: "int \<Rightarrow> int \<Rightarrow> timeOptionDraft list \<Rightarrow> timeOption list" where
  "stored n eventId [] = []"
| "stored n eventId (t # ts) =
     \<lparr>to_id = n + 1, to_eventId = eventId, to_date = td_date t, to_startTime = td_startTime t,
      to_endTime = td_endTime t\<rparr> # stored (n + 1) eventId ts"

text \<open>The event row that \<open>createEvent\<close> inserts.\<close>

definition newEvent :: "string \<Rightarrow> insertEvent \<Rightarrow> database \<Rightarrow> event" where
  "newEvent nanoid event d =
     \<lparr>ev_id = events_id_seq d + 1, ev_title = ie_title event, ev_description = orNull (ie_description event),
      ev_duration = ie_duration event, ev_shareId = nanoid\<rparr>"

text \<open>The three labels of a response.\<close>

definition knownStatus :: "string \<Rightarrow> bool" where
  "knownStatus s = (s = ''available'' \<or> s = ''maybe'' \<or> s = ''unavailable'')"

text \<open>What a response row says: its time option and its status.\<close>

definition answer :: "availabilityRow \<Rightarrow> int \<times> string" where
  "answer a = (av_timeOptionId a, av_status a)"

definition submitted :: "availabilityItem \<Rightarrow> int \<times> string" where
  "submitted item = (ai_timeOptionId item, ai_status item)"

text \<open>The responses the database holds for one participant, and for one time option.\<close>

definition responsesOf :: "int \<Rightarrow> database \<Rightarrow> availabilityRow list" where
  "responsesOf participantId d = filter (\<lambda>a. av_participantId a = participantId) (availability d)"

definition responsesTo :: "int \<Rightarrow> database \<Rightarrow> availabilityRow list" where
  "responsesTo timeOptionId d = filter (\<lambda>a. av_timeOptionId a = timeOptionId) (availability d)"

text \<open>The response rows of one participant for one time option.\<close>

definition pairRows :: "int \<Rightarrow> int \<Rightarrow> database \<Rightarrow> availabilityRow list" where
  "pairRows participantId timeOptionId d =
     filter (\<lambda>a. av_participantId a = participantId \<and> av_timeOptionId a = timeOptionId) (availability d)"

text \<open>
  The two write statements of \<open>setAvailability\<close>, taken one by one: the delete of a
  participant's rows and the insert of a payload under the participant's id.
  \<open>statementsOf\<close> lists the statements one call issues, in order (the insert only
  for a non-empty list). \<open>interleavings\<close> lists every order in which the
  statements of two calls that overlap can reach the database, each call keeping its
  own order.
\<close>

datatype statement = Delete int | Insert int "availabilityItem list"

fun execute :: "statement \<Rightarrow> database \<Rightarrow> database" where
  "execute (Delete participantId) d = snd (delete_availability participantId d)"
| "execute (Insert participantId availabilityList) d =
     snd (insert_availability (withParticipantId participantId availabilityList) d)"

definition statementsOf :: "int \<Rightarrow> availabilityItem list \<Rightarrow> statement list" where
  "statementsOf participantId availabilityList =
     Delete participantId
       # (if length availabilityList > 0 then [Insert participantId availabilityList] else [])"

fun interleavings :: "'a list \<Rightarrow> 'a list \<Rightarrow> 'a list list" where
  "interleavings [] ys = [ys]"
| "interleavings xs [] = [xs]"
| "interleavings (x # xs) (y # ys) =
     map ((#) x) (interleavings xs (y # ys)) @ map ((#) y) (interleavings (x # xs) ys)"

text \<open>
  The participants of an event whose name equals \<open>name\<close> up to letter case.
\<close>

definition namesakes :: "(string \<Rightarrow> string) \<Rightarrow> int \<Rightarrow> string \<Rightarrow> database \<Rightarrow> participant list" where
  "namesakes toLowerCase eventId name d =
     filter (\<lambda>p. pt_eventId p = eventId \<and> toLowerCase (pt_name p) = toLowerCase name) (participants d)"

text \<open>
  Three properties of a database: every stored status is one of the three labels; no two
  events have the same share id; no two response rows are for the same participant and
  time option.
\<close>

definition knownStatuses :: "database \<Rightarrow> bool" where
  "knownStatuses d = list_all (\<lambda>a. knownStatus (av_status a)) (availability d)"


definition onePerPair :: "database \<Rightarrow> bool" where
  "onePerPair d = distinct (map (\<lambda>a. (av_participantId a, av_timeOptionId a)) (availability d))"

text \<open>
  A participate body names each time option at most once (a body that the schema refuses
  names none).
\<close>

definition distinctTimeOptionIds :: "json \<Rightarrow> bool" where
  "distinctTimeOptionIds body =
     (case participateRequestSchema body of
        Inl _ \<Rightarrow> True
      | Inr parsed \<Rightarrow> distinct (map ai_timeOptionId (rq_availability parsed)))"

fun oncePerTimeOption :: "nat option \<times> request \<Rightarrow> bool" where
  "oncePerTimeOption (w, PostParticipate shareId body) = distinctTimeOptionIds body"
| "oncePerTimeOption (w, PostEvents nanoid body) = True"
| "oncePerTimeOption (w, GetEvent shareId) = True"

section \<open>Worked examples\<close>

text \<open>
  The scenario of the specification: the event "Lunch" with two time options, created
  under the share id \<open>V1StGXR8_Z\<close>, and what the database holds after it and after
  the participations the examples use.
\<close>

definition lunchBody :: json where
  "lunchBody = createEventBody ''Lunch'' ''1 hour''
     [(''2024-06-01'', ''12:00'', ''13:00''), (''2024-06-02'', ''12:00'', ''13:00'')]"

definition lunchEvent :: event where
  "lunchEvent = \<lparr>ev_id = 1, ev_title = ''Lunch'', ev_description = None, ev_duration = ''1 hour'', ev_shareId = ''V1StGXR8_Z''\<rparr>"

definition lunchOptions :: "timeOption list" where
  "lunchOptions =
     [\<lparr>to_id = 1, to_eventId = 1, to_date = ''2024-06-01'', to_startTime = ''12:00'', to_endTime = ''13:00''\<rparr>,
      \<lparr>to_id = 2, to_eventId = 1, to_date = ''2024-06-02'', to_startTime = ''12:00'', to_endTime = ''13:00''\<rparr>]"

definition lunchDb :: database where
  "lunchDb = \<lparr>events = [lunchEvent], time_options = lunchOptions, participants = [], availability = [],
      events_id_seq = 1, time_options_id_seq = 2, participants_id_seq = 0, availability_id_seq = 0,
      writesLeft = None\<rparr>"

definition aliceDb :: database where
  "aliceDb = lunchDb\<lparr>participants := [\<lparr>pt_id = 1, pt_eventId = 1, pt_name = ''Alice''\<rparr>],
       participants_id_seq := 1,
       availability := [\<lparr>av_id = 1, av_participantId = 1, av_timeOptionId = 1, av_status = ''available''\<rparr>,
                        \<lparr>av_id = 2, av_participantId = 1, av_timeOptionId = 2, av_status = ''maybe''\<rparr>],
       availability_id_seq := 2\<rparr>"

definition roundTrip :: "(nat option \<times> request) list" where
  "roundTrip =
     [(None, PostEvents ''V1StGXR8_Z'' lunchBody),
      (None, PostParticipate ''V1StGXR8_Z'' (participateBody ''Bob'' [(1, ''available''), (2, ''maybe'')]))]"

definition bobDb :: database where
  "bobDb = lunchDb\<lparr>participants := [\<lparr>pt_id = 1, pt_eventId = 1, pt_name = ''Bob''\<rparr>],
       participants_id_seq := 1,
       availability := [\<lparr>av_id = 1, av_participantId = 1, av_timeOptionId = 1, av_status = ''available''\<rparr>,
                        \<lparr>av_id = 2, av_participantId = 1, av_timeOptionId = 2, av_status = ''maybe''\<rparr>],
       availability_id_seq := 2\<rparr>"

definition bobOption1 :: timeOptionWithAvailability where
  "bobOption1 =
     \<lparr>to_id = 1, to_eventId = 1, to_date = ''2024-06-01'', to_startTime = ''12:00'', to_endTime = ''13:00'',
      availabilityCount = \<lparr>available = 1, maybe = 0, unavailable = 0, total = 1\<rparr>,
      to_participants = [\<lparr>ps_id = 1, ps_name = ''Bob'', ps_status = ''available''\<rparr>]\<rparr>"

definition bobOption2 :: timeOptionWithAvailability where
  "bobOption2 =
     \<lparr>to_id = 2, to_eventId = 1, to_date = ''2024-06-02'', to_startTime = ''12:00'', to_endTime = ''13:00'',
      availabilityCount = \<lparr>available = 0, maybe = 1, unavailable = 0, total = 1\<rparr>,
      to_participants = [\<lparr>ps_id = 1, ps_name = ''Bob'', ps_status = ''maybe''\<rparr>]\<rparr>"

definition bobView :: eventWithDetails where
  "bobView = \<lparr>ev_id = 1, ev_title = ''Lunch'', ev_description = None, ev_duration = ''1 hour'',
      ev_shareId = ''V1StGXR8_Z'', ewd_timeOptions = [bobOption1, bobOption2], participantCount = 1\<rparr>"

definition lunchDraft :: insertEvent where
  "lunchDraft = \<lparr>ie_title = ''Lunch'', ie_description = None, ie_duration = ''1 hour''\<rparr>"

definition lunchSlots :: "timeOptionDraft list" where
  "lunchSlots = [\<lparr>td_date = ''2024-06-01'', td_startTime = ''12:00'', td_endTime = ''13:00''\<rparr>,
                 \<lparr>td_date = ''2024-06-02'', td_startTime = ''12:00'', td_endTime = ''13:00''\<rparr>]"

definition emptyBody :: json where
  "emptyBody = createEventBody ''Lunch'' ''1 hour'' []"

definition twiceBody :: json where
  "twiceBody = participateBody ''Bob'' [(1, ''available''), (1, ''maybe'')]"

definition twiceRun :: "(nat option \<times> request) list" where
  "twiceRun = [(None, PostEvents ''V1StGXR8_Z'' lunchBody), (None, PostParticipate ''V1StGXR8_Z'' twiceBody)]"

definition once1 :: "availabilityItem list" where
  "once1 = [\<lparr>ai_timeOptionId = 1, ai_status = ''available''\<rparr>]"

definition once2 :: "availabilityItem list" where
  "once2 = [\<lparr>ai_timeOptionId = 1, ai_status = ''maybe''\<rparr>]"

definition aliceAgain :: json where
  "aliceAgain = participateBody ''alice'' [(1, ''unavailable'')]"

definition aliceDb2 :: database where
  "aliceDb2 = aliceDb\<lparr>availability := [\<lparr>av_id = 3, av_participantId = 1, av_timeOptionId = 1, av_status = ''unavailable''\<rparr>],
       availability_id_seq := 3\<rparr>"

definition emptyForm :: "formTimeOption list" where
  "emptyForm = [\<lparr>ft_date = [], ft_startTime = [], ft_availability = ''available''\<rparr>]"

definition lunchForm :: "formTimeOption list" where
  "lunchForm = [\<lparr>ft_date = ''2024-06-01'', ft_startTime = ''12:00'', ft_availability = ''available''\<rparr>,
                \<lparr>ft_date = [], ft_startTime = [], ft_availability = ''available''\<rparr>]"

definition lunchFormData :: formData where
  "lunchFormData = \<lparr>fd_title = ''Lunch'', fd_description = Some [], fd_duration = ''1 hour'', fd_organizerName = ''Ann''\<rparr>"

section \<open>Selection: proofs\<close>

lemma Math_max_Max:
  assumes "xs \<noteq> []"
  shows "Math_max xs = Some (Max (set xs))"
proof (cases xs)
  case Nil
  then show ?thesis using assms by simp
next
  case (Cons a list)
  then show ?thesis using Max.set_eq_fold [of a list] by simp
qed

lemma foldl_total_sum:
  "foldl (\<lambda>sum option. sum + total (availabilityCount option)) n xs
     = n + sum_list (map (\<lambda>option. total (availabilityCount option)) xs)"
  by (induction xs arbitrary: n) simp_all

lemma topAvail_nonempty: "timeOptions \<noteq> [] \<Longrightarrow> topAvail timeOptions \<noteq> []"
proof -
  assume ne: "timeOptions \<noteq> []"
  then have "Max (avail ` set timeOptions) \<in> avail ` set timeOptions"
    by (intro Max_in) simp_all
  then obtain x where "x \<in> set timeOptions" "avail x = maxAvail timeOptions"
    by (auto simp: maxAvail_def)
  then have "x \<in> set (topAvail timeOptions)"
    by (simp add: topAvail_def)
  then show ?thesis by auto
qed

lemma better_cases:
  "better b c = (if avail c > avail b \<or> (avail c = avail b \<and> mayb c < mayb b) then c else b)"
  by (auto simp: better_def avail_def mayb_def Let_def)

lemma foldl_better_first:
  "\<exists>ys zs. b # xs = ys @ foldl better b xs # zs
      \<and> (\<forall>y \<in> set ys. sb (foldl better b xs) y)
      \<and> (\<forall>z \<in> set zs. \<not> sb z (foldl better b xs))"
proof (induction xs rule: rev_induct)
  case Nil
  show ?case by (rule exI [of _ "[]"]) simp
next
  case (snoc x xs)
  then obtain ys zs where split: "b # xs = ys @ foldl better b xs # zs"
    and before: "\<forall>y \<in> set ys. sb (foldl better b xs) y"
    and after: "\<forall>z \<in> set zs. \<not> sb z (foldl better b xs)"
    by blast
  let ?r = "foldl better b xs"
  show ?case
  proof (cases "sb x ?r")
    case True
    then have r: "foldl better b (xs @ [x]) = x"
      by (simp add: better_cases sb_def)
    have "b # xs @ [x] = (b # xs) @ x # []" by simp
    moreover have "\<forall>y \<in> set (b # xs). sb x y"
    proof
      fix y assume "y \<in> set (b # xs)"
      then have "y \<in> set ys \<or> y = ?r \<or> y \<in> set zs" using split
        by (metis Un_iff set_ConsD set_append)
      then show "sb x y" using True before after
        by (auto simp: sb_def)
    qed
    ultimately show ?thesis unfolding r by (metis empty_iff empty_set)
  next
    case False
    then have r: "foldl better b (xs @ [x]) = ?r"
      by (auto simp add: better_cases sb_def)
    have "b # xs @ [x] = ys @ ?r # (zs @ [x])" using split by simp
    moreover have "\<forall>z \<in> set (zs @ [x]). \<not> sb z ?r" using after False by auto
    ultimately show ?thesis unfolding r using before by blast
  qed
qed

lemma find_first_split:
  "\<forall>y \<in> set ys. \<not> P y \<Longrightarrow> P r \<Longrightarrow> List.find P (ys @ r # zs) = Some r"
  by (induction ys) simp_all

lemma sb_irrefl: "\<not> sb r r"
  by (simp add: sb_def)

lemma sb_asym: "sb r y \<Longrightarrow> \<not> sb y r"
  by (auto simp: sb_def)

lemma foldl_better_optimum:
  assumes "timeOptions = b # xs" and "r = foldl better b xs"
  shows "r \<in> set timeOptions" and "\<forall>e \<in> set timeOptions. \<not> sb e r"
    and "\<exists>ys zs. timeOptions = ys @ r # zs \<and> (\<forall>y \<in> set ys. sb r y)"
proof -
  from foldl_better_first [of b xs] obtain ys zs where split: "b # xs = ys @ r # zs"
    and before: "\<forall>y \<in> set ys. sb r y" and after: "\<forall>z \<in> set zs. \<not> sb z r"
    unfolding assms(2) by blast
  have "set (b # xs) = set (ys @ r # zs)"
    using split by (rule arg_cong)
  then have mem: "set timeOptions = set ys \<union> {r} \<union> set zs"
    unfolding assms(1) by simp
  show "r \<in> set timeOptions" using mem by simp
  show "\<forall>e \<in> set timeOptions. \<not> sb e r"
  proof
    fix e assume "e \<in> set timeOptions"
    then consider "e \<in> set ys" | "e = r" | "e \<in> set zs" using mem by auto
    then show "\<not> sb e r"
    proof cases
      case 1 then show ?thesis using before sb_asym by blast
    next
      case 2 then show ?thesis by (simp add: sb_irrefl)
    next
      case 3 then show ?thesis using after by blast
    qed
  qed
  show "\<exists>ys zs. timeOptions = ys @ r # zs \<and> (\<forall>y \<in> set ys. sb r y)"
  proof (intro exI conjI)
    show "timeOptions = ys @ r # zs" using split assms(1) by simp
    show "\<forall>y \<in> set ys. sb r y" by (rule before)
  qed
qed

lemma getBestTimeSlot_find:
  assumes "timeOptions \<noteq> []"
  shows "getBestTimeSlot timeOptions
     = List.find (\<lambda>option. avail option = maxAvail timeOptions \<and> mayb option = minMaybeTop timeOptions) timeOptions"
proof -
  from assms obtain b xs where opts: "timeOptions = b # xs" by (cases timeOptions) auto
  define r where "r = foldl better b xs"
  note opt = foldl_better_optimum [OF opts r_def]
  have nb: "\<not> sb e r" if "e \<in> set timeOptions" for e
    using that opt(2) by blast
  have rin: "r \<in> set timeOptions" by (rule opt(1))
  have mx: "maxAvail timeOptions = avail r"
    unfolding maxAvail_def
  proof (rule Max_eqI)
    show "finite (avail ` set timeOptions)" by simp
    show "avail r \<in> avail ` set timeOptions" using rin by simp
    fix y assume "y \<in> avail ` set timeOptions"
    then obtain e where "e \<in> set timeOptions" "y = avail e" by auto
    then show "y \<le> avail r" using nb [of e] by (auto simp: sb_def)
  qed
  have rtop: "r \<in> set (topAvail timeOptions)"
    using rin mx by (simp add: topAvail_def)
  have mn: "minMaybeTop timeOptions = mayb r"
    unfolding minMaybeTop_def
  proof (rule Min_eqI)
    show "finite (mayb ` set (topAvail timeOptions))" by simp
    show "mayb r \<in> mayb ` set (topAvail timeOptions)" using rtop by simp
    fix y assume "y \<in> mayb ` set (topAvail timeOptions)"
    then obtain e where "e \<in> set timeOptions" "avail e = avail r" "y = mayb e"
      using mx by (auto simp: topAvail_def)
    then show "mayb r \<le> y" using nb [of e] by (auto simp: sb_def)
  qed
  from opt(3) obtain ys zs where split: "timeOptions = ys @ r # zs"
    and before: "\<forall>y \<in> set ys. sb r y" by blast
  have "List.find (\<lambda>option. avail option = avail r \<and> mayb option = mayb r) (ys @ r # zs) = Some r"
  proof (rule find_first_split)
    show "\<forall>y\<in>set ys. \<not> (avail y = avail r \<and> mayb y = mayb r)"
      using before by (auto simp: sb_def)
  qed simp
  then have "List.find (\<lambda>option. avail option = maxAvail timeOptions \<and> mayb option = minMaybeTop timeOptions) timeOptions = Some r"
    unfolding mx mn using split by simp
  moreover have "getBestTimeSlot timeOptions = Some r"
    unfolding opts r_def by (simp add: getBestTimeSlot_def)
  ultimately show ?thesis by simp
qed

lemma filter_filter_conj: "filter P (filter Q xs) = filter (\<lambda>x. Q x \<and> P x) xs"
  by (induction xs) simp_all

lemma getBestTimeSlotIds_empty:
  assumes "timeOptions = [] \<or> sum_list (map (\<lambda>option. total (availabilityCount option)) timeOptions) = 0"
  shows "getBestTimeSlotIds timeOptions = []"
proof (cases "timeOptions = []")
  case True
  then show ?thesis by (simp add: getBestTimeSlotIds_def)
next
  case False
  then have "sum_list (map (\<lambda>option. total (availabilityCount option)) timeOptions) = 0"
    using assms by blast
  then have "foldl (\<lambda>sum option. sum + total (availabilityCount option)) 0 timeOptions = 0"
    unfolding foldl_total_sum by simp
  then show ?thesis
    unfolding getBestTimeSlotIds_def Let_def by simp
qed

lemma getBestTimeSlotIds_nonempty:
  assumes ne: "timeOptions \<noteq> []"
    and pos: "sum_list (map (\<lambda>option. total (availabilityCount option)) timeOptions) \<noteq> 0"
  shows "getBestTimeSlotIds timeOptions =
     map to_id (filter (\<lambda>option. avail option = maxAvail timeOptions \<and> mayb option = maxMaybeTop timeOptions) timeOptions)"
proof -
  have m1: "Math_max (map (\<lambda>option. available (availabilityCount option)) timeOptions) = Some (maxAvail timeOptions)"
    using ne Math_max_Max [of "map (\<lambda>option. available (availabilityCount option)) timeOptions"]
    by (simp add: maxAvail_def avail_def [abs_def])
  have top: "filter (\<lambda>option. Some (available (availabilityCount option)) = Some (maxAvail timeOptions)) timeOptions
      = topAvail timeOptions"
    by (simp add: topAvail_def avail_def)
  have m2: "Math_max (map (\<lambda>option. maybe (availabilityCount option)) (topAvail timeOptions)) = Some (maxMaybeTop timeOptions)"
    using topAvail_nonempty [OF ne]
      Math_max_Max [of "map (\<lambda>option. maybe (availabilityCount option)) (topAvail timeOptions)"]
    by (simp add: maxMaybeTop_def mayb_def [abs_def])
  have len: "length timeOptions \<noteq> 0" using ne by simp
  have tot: "foldl (\<lambda>sum option. sum + total (availabilityCount option)) 0 timeOptions \<noteq> 0"
    unfolding foldl_total_sum using pos by simp
  have "getBestTimeSlotIds timeOptions
      = map to_id (filter (\<lambda>option. Some (maybe (availabilityCount option)) = Some (maxMaybeTop timeOptions)) (topAvail timeOptions))"
    unfolding getBestTimeSlotIds_def Let_def m1 top m2 using len tot by simp
  also have "\<dots> = map to_id (filter (\<lambda>option. avail option = maxAvail timeOptions \<and> mayb option = maxMaybeTop timeOptions) timeOptions)"
    by (simp add: topAvail_def filter_filter_conj mayb_def)
  finally show ?thesis .
qed

lemma foldl_better_all_equal:
  "\<forall>x \<in> set xs. avail x = avail b \<and> mayb x = mayb b \<Longrightarrow> foldl better b xs = b"
  by (induction xs) (simp_all add: better_cases)

lemma Max_image_Cons: "Max (f ` set (x # xs)) = fold max (map f xs) (f x)"
  using Max.set_eq_fold [of "f x" "map f xs"] by simp

lemma Min_image_Cons: "Min (f ` set (x # xs)) = fold min (map f xs) (f x)"
  using Min.set_eq_fold [of "f x" "map f xs"] by simp

lemma getBestTimeSlot_example:
  "getBestTimeSlot [mkOption 1 3 1 0, mkOption 2 3 2 0] = Some (mkOption 1 3 1 0)"
  by (simp add: getBestTimeSlot_def better_cases avail_def mayb_def mkOption_def)

lemma getBestTimeSlotIds_example:
  "getBestTimeSlotIds [mkOption 1 3 1 0, mkOption 2 3 2 0] = [2]"
  by (simp add: getBestTimeSlotIds_def mkOption_def)

subsection \<open>The set-returning selection\<close>

text \<open>
  Claim C1. For every list of aggregated time options: if the list is empty or the
  \<open>total\<close> counts sum to zero, \<open>getBestTimeSlotIds\<close> returns nothing; otherwise it
  returns, in list order, the ids of exactly the options whose \<open>available\<close> count is
  the maximum over the whole list and whose \<open>maybe\<close> count is the maximum among the
  options at that maximum \<open>available\<close>. Every tie is kept and no other option appears.
\<close>

theorem getBestTimeSlotIds_lexicographic_maximum:
  "getBestTimeSlotIds timeOptions =
     (if timeOptions = [] \<or> sum_list (map (\<lambda>option. total (availabilityCount option)) timeOptions) = 0 then []
      else map to_id (filter (\<lambda>option. avail option = maxAvail timeOptions \<and> mayb option = maxMaybeTop timeOptions) timeOptions))"
  using getBestTimeSlotIds_empty [of timeOptions] getBestTimeSlotIds_nonempty [of timeOptions]
  by (cases "timeOptions = [] \<or> sum_list (map (\<lambda>option. total (availabilityCount option)) timeOptions) = 0") simp_all

text \<open>
  The examples of the specification: A(available 3, maybe 1), B(3, 2), C(2, 5) selects
  B alone; A(2, 1), B(2, 1) selects both; no option, or options nobody answered, select
  nothing.
\<close>

theorem getBestTimeSlotIds_lexicographic_maximum_witness:
  "getBestTimeSlotIds [mkOption 1 3 1 0, mkOption 2 3 2 0, mkOption 3 2 5 0] = [2]
   \<and> getBestTimeSlotIds [mkOption 1 2 1 0, mkOption 2 2 1 0] = [1, 2]
   \<and> getBestTimeSlotIds [] = []
   \<and> getBestTimeSlotIds [mkOption 1 0 0 0, mkOption 2 0 0 0] = []"
proof -
  have "getBestTimeSlotIds [mkOption 1 3 1 0, mkOption 2 3 2 0, mkOption 3 2 5 0] = [2]"
    using getBestTimeSlotIds_lexicographic_maximum [of "[mkOption 1 3 1 0, mkOption 2 3 2 0, mkOption 3 2 5 0]"]
    by (simp add: maxAvail_def maxMaybeTop_def topAvail_def Max_image_Cons avail_def mayb_def mkOption_def
        del: set_simps image_insert)
  moreover have "getBestTimeSlotIds [mkOption 1 2 1 0, mkOption 2 2 1 0] = [1, 2]"
    using getBestTimeSlotIds_lexicographic_maximum [of "[mkOption 1 2 1 0, mkOption 2 2 1 0]"]
    by (simp add: maxAvail_def maxMaybeTop_def topAvail_def Max_image_Cons avail_def mayb_def mkOption_def
        del: set_simps image_insert)
  moreover have "getBestTimeSlotIds [] = []"
    using getBestTimeSlotIds_lexicographic_maximum [of "[]"] by simp
  moreover have "getBestTimeSlotIds [mkOption 1 0 0 0, mkOption 2 0 0 0] = []"
    using getBestTimeSlotIds_lexicographic_maximum [of "[mkOption 1 0 0 0, mkOption 2 0 0 0]"]
    by (simp add: mkOption_def)
  ultimately show ?thesis by simp
qed

subsection \<open>The single-winner selection\<close>

text \<open>
  Claim C3. For every non-empty list of aggregated time options, \<open>getBestTimeSlot\<close>
  returns the first option of the list that has the maximum \<open>available\<close> count of
  the list and the minimum \<open>maybe\<close> count among the options at that maximum.
\<close>

theorem getBestTimeSlot_first_min_maybe:
  assumes "timeOptions \<noteq> []"
  shows "getBestTimeSlot timeOptions
     = List.find (\<lambda>option. avail option = maxAvail timeOptions \<and> mayb option = minMaybeTop timeOptions) timeOptions"
  using assms by (rule getBestTimeSlot_find)

text \<open>
  Options 1 and 3 tie on (available 3, maybe 1), option 2 has more "maybe", option 4 has
  fewer "available": the earlier of the two tied options is returned.
\<close>

theorem getBestTimeSlot_first_min_maybe_witness:
  "[mkOption 2 3 2 0, mkOption 1 3 1 0, mkOption 3 3 1 0, mkOption 4 2 0 0] \<noteq> []
   \<and> getBestTimeSlot [mkOption 2 3 2 0, mkOption 1 3 1 0, mkOption 3 3 1 0, mkOption 4 2 0 0]
       = Some (mkOption 1 3 1 0)"
  using getBestTimeSlot_first_min_maybe [of "[mkOption 2 3 2 0, mkOption 1 3 1 0, mkOption 3 3 1 0, mkOption 4 2 0 0]"]
  by (simp add: maxAvail_def minMaybeTop_def topAvail_def Max_image_Cons Min_image_Cons avail_def mayb_def mkOption_def del: set_simps image_insert)

text \<open>
  Claim C4. The two selections are not equivalent: there is a list of aggregated time
  options (consistent counts, distinct ids) whose single winner is not among the ids of
  the set-returning selection, and there is one for which the single-winner selection
  recommends an option while the set-returning selection recommends none.
\<close>

theorem selections_not_equivalent:
  "(\<exists>timeOptions winner.
      list_all (\<lambda>option. consistent (availabilityCount option)) timeOptions
      \<and> distinct (map to_id timeOptions)
      \<and> getBestTimeSlot timeOptions = Some winner
      \<and> to_id winner \<notin> set (getBestTimeSlotIds timeOptions))
   \<and> (\<exists>timeOptions winner.
      list_all (\<lambda>option. consistent (availabilityCount option)) timeOptions
      \<and> getBestTimeSlot timeOptions = Some winner
      \<and> getBestTimeSlotIds timeOptions = [])"
proof
  have "list_all (\<lambda>option. consistent (availabilityCount option)) [mkOption 1 3 1 0, mkOption 2 3 2 0]"
    by (simp add: consistent_def mkOption_def)
  moreover have "distinct (map to_id [mkOption 1 3 1 0, mkOption 2 3 2 0])"
    by (simp add: mkOption_def)
  moreover have "to_id (mkOption 1 3 1 0) \<notin> set (getBestTimeSlotIds [mkOption 1 3 1 0, mkOption 2 3 2 0])"
    unfolding getBestTimeSlotIds_example by (simp add: mkOption_def)
  ultimately show "\<exists>timeOptions winner.
      list_all (\<lambda>option. consistent (availabilityCount option)) timeOptions
      \<and> distinct (map to_id timeOptions)
      \<and> getBestTimeSlot timeOptions = Some winner
      \<and> to_id winner \<notin> set (getBestTimeSlotIds timeOptions)"
    using getBestTimeSlot_example by blast
next
  have "list_all (\<lambda>option. consistent (availabilityCount option)) [mkOption 1 0 0 0]"
    by (simp add: consistent_def mkOption_def)
  moreover have "getBestTimeSlot [mkOption 1 0 0 0] = Some (mkOption 1 0 0 0)"
    by (simp add: getBestTimeSlot_def)
  moreover have "getBestTimeSlotIds [mkOption 1 0 0 0] = []"
    by (simp add: getBestTimeSlotIds_def mkOption_def)
  ultimately show "\<exists>timeOptions winner.
      list_all (\<lambda>option. consistent (availabilityCount option)) timeOptions
      \<and> getBestTimeSlot timeOptions = Some winner
      \<and> getBestTimeSlotIds timeOptions = []"
    by blast
qed

text \<open>
  Claim C10. For every non-empty list of aggregated time options \<open>getBestTimeSlot\<close>
  returns an option, never \<^verbatim>\<open>null\<close>; when every option's total is zero (nobody has
  responded, so every bucket of every consistent count is zero) it returns the first
  option of the list, where \<open>getBestTimeSlotIds\<close> returns the empty list.
\<close>

theorem getBestTimeSlot_no_responses:
  assumes "timeOptions \<noteq> []"
  shows "getBestTimeSlot timeOptions \<noteq> None
     \<and> ((\<forall>option \<in> set timeOptions. consistent (availabilityCount option) \<and> total (availabilityCount option) = 0)
          \<longrightarrow> getBestTimeSlot timeOptions = Some (hd timeOptions) \<and> getBestTimeSlotIds timeOptions = [])"
proof -
  from assms obtain b xs where opts: "timeOptions = b # xs" by (cases timeOptions) auto
  have some: "getBestTimeSlot timeOptions = Some (foldl better b xs)"
    unfolding opts by (simp add: getBestTimeSlot_def)
  have "getBestTimeSlot timeOptions = Some (hd timeOptions) \<and> getBestTimeSlotIds timeOptions = []"
    if zero: "\<forall>option \<in> set timeOptions. consistent (availabilityCount option) \<and> total (availabilityCount option) = 0"
  proof
    have "avail x = 0 \<and> mayb x = 0" if "x \<in> set timeOptions" for x
      using zero that by (auto simp: consistent_def avail_def mayb_def)
    then have "\<forall>x \<in> set xs. avail x = avail b \<and> mayb x = mayb b"
      unfolding opts by simp
    then have "foldl better b xs = b" by (rule foldl_better_all_equal)
    then show "getBestTimeSlot timeOptions = Some (hd timeOptions)"
      using some opts by simp
    have "sum_list (map (\<lambda>option. total (availabilityCount option)) timeOptions) = 0"
      using zero by simp
    then show "getBestTimeSlotIds timeOptions = []"
      using getBestTimeSlotIds_empty by blast
  qed
  then show ?thesis using some by simp
qed

theorem getBestTimeSlot_no_responses_witness:
  "[mkOption 1 0 0 0, mkOption 2 0 0 0] \<noteq> []
   \<and> list_all (\<lambda>option. consistent (availabilityCount option) \<and> total (availabilityCount option) = 0)
         [mkOption 1 0 0 0, mkOption 2 0 0 0]
   \<and> getBestTimeSlot [mkOption 1 0 0 0, mkOption 2 0 0 0] = Some (mkOption 1 0 0 0)
   \<and> getBestTimeSlotIds [mkOption 1 0 0 0, mkOption 2 0 0 0] = []"
proof -
  have z: "\<forall>option \<in> set [mkOption 1 0 0 0, mkOption 2 0 0 0].
         consistent (availabilityCount option) \<and> total (availabilityCount option) = 0"
    by (simp add: consistent_def mkOption_def)
  show ?thesis
    using z getBestTimeSlot_no_responses [of "[mkOption 1 0 0 0, mkOption 2 0 0 0]"] by simp
qed

section \<open>Server: the storage layer\<close>

text \<open>
  The loop of \<open>createEvent\<close> in closed form: it carries out as many inserts as the
  connection allows and fails if that is not all of them. From it, what \<open>createEvent\<close>
  and the route above it do to each table.
\<close>

lemma carriedOut_tables:
  "events (carriedOut d) = events d"
  "time_options (carriedOut d) = time_options d"
  "participants (carriedOut d) = participants d"
  "availability (carriedOut d) = availability d"
  "events_id_seq (carriedOut d) = events_id_seq d"
  "time_options_id_seq (carriedOut d) = time_options_id_seq d"
  "participants_id_seq (carriedOut d) = participants_id_seq d"
  "availability_id_seq (carriedOut d) = availability_id_seq d"
  by (simp_all add: carriedOut_def)

lemma insertTimeOptions_eq:
  "insertTimeOptions eventId ts acc d =
     (if carried (length ts) d = length ts
      then Inr (acc @ stored (time_options_id_seq d) eventId ts) else Inl DatabaseError,
      d\<lparr>time_options := time_options d @ stored (time_options_id_seq d) eventId (take (carried (length ts) d) ts),
        time_options_id_seq := time_options_id_seq d + int (carried (length ts) d),
        writesLeft := map_option (\<lambda>k. k - carried (length ts) d) (writesLeft d)\<rparr>)"
proof (induction ts arbitrary: acc d)
  case Nil
  show ?case by (simp add: carried_def split: option.splits)
next
  case (Cons t ts)
  show ?case
  proof (cases "refuses d")
    case True
    then show ?thesis by (simp add: insert_time_options_def refuses_def carried_def)
  next
    case False
    define row where "row = \<lparr>to_id = time_options_id_seq d + 1, to_eventId = eventId, to_date = td_date t,
                   to_startTime = td_startTime t, to_endTime = td_endTime t\<rparr>"
    define d1 where "d1 = carriedOut (d\<lparr>time_options := time_options d @ [row],
                            time_options_id_seq := time_options_id_seq d + 1\<rparr>)"
    have step: "insertTimeOptions eventId (t # ts) acc d = insertTimeOptions eventId ts (acc @ [row]) d1"
      using False by (simp add: insert_time_options_def Let_def row_def d1_def)
    have c: "carried (length (t # ts)) d = Suc (carried (length ts) d1)"
      using False by (auto simp: carried_def d1_def carriedOut_def refuses_def split: option.splits)
    have w: "map_option (\<lambda>k. k - carried (length ts) d1) (writesLeft d1)
        = map_option (\<lambda>k. k - Suc (carried (length ts) d1)) (writesLeft d)"
      by (cases "writesLeft d") (simp_all add: d1_def carriedOut_def)
    show ?thesis
      unfolding step Cons.IH [of "acc @ [row]" d1] c
      by (simp add: w) (simp add: d1_def carriedOut_def row_def)
  qed
qed

lemma createEvent_refused:
  assumes "nanoid \<in> set (map ev_shareId (events d)) \<or> writesLeft d = Some 0"
  shows "createEvent nanoid event ts d = (Inl DatabaseError, d)"
  using assms by (auto simp: createEvent_def insert_events_def refuses_def)

lemma createEvent_eq:
  fixes nanoid :: string and event :: insertEvent and d :: database
  assumes fresh: "nanoid \<notin> set (map ev_shareId (events d))" and nr: "writesLeft d \<noteq> Some 0"
  defines "row \<equiv> newEvent nanoid event d"
  defines "d1 \<equiv> carriedOut (d\<lparr>events := events d @ [row], events_id_seq := events_id_seq d + 1\<rparr>)"
  shows "createEvent nanoid event ts d =
      (if carried (length ts) d1 = length ts
       then Inr \<lparr>ev_id = ev_id row, ev_title = ev_title row, ev_description = ev_description row,
            ev_duration = ev_duration row, ev_shareId = ev_shareId row,
            ewt_timeOptions = stored (time_options_id_seq d) (ev_id row) ts\<rparr>
       else Inl DatabaseError,
       d1\<lparr>time_options := time_options d @ stored (time_options_id_seq d) (ev_id row) (take (carried (length ts) d1) ts),
          time_options_id_seq := time_options_id_seq d + int (carried (length ts) d1),
          writesLeft := map_option (\<lambda>k. k - carried (length ts) d1) (writesLeft d1)\<rparr>)"
proof -
  have ins: "insert_events (ie_title event) (orNull (ie_description event)) (ie_duration event) nanoid d = (Inr row, d1)"
    using fresh nr by (simp add: insert_events_def Let_def row_def d1_def newEvent_def refuses_def)
  have t: "time_options d1 = time_options d" "time_options_id_seq d1 = time_options_id_seq d"
    by (simp_all add: d1_def carriedOut_tables)
  show ?thesis
    by (simp add: createEvent_def ins insertTimeOptions_eq t)
qed

lemma createEvent_success:
  assumes fresh: "nanoid \<notin> set (map ev_shareId (events d))"
    and enough: "\<forall>k. writesLeft d = Some k \<longrightarrow> length ts < k"
  shows "\<exists>created d'. createEvent nanoid event ts d = (Inr created, d')
      \<and> event.truncate created = newEvent nanoid event d
      \<and> events d' = events d @ [event.truncate created]
      \<and> ewt_timeOptions created = stored (time_options_id_seq d) (ev_id created) ts
      \<and> time_options d' = time_options d @ ewt_timeOptions created"
proof -
  have nr: "writesLeft d \<noteq> Some 0" using enough by auto
  have c: "carried (length ts)
      (carriedOut (d\<lparr>events := events d @ [newEvent nanoid event d], events_id_seq := events_id_seq d + 1\<rparr>)) = length ts"
    using enough by (cases "writesLeft d") (auto simp: carried_def carriedOut_def)
  show ?thesis
    unfolding createEvent_eq [OF fresh nr] c
    by (simp add: carriedOut_tables event.defs newEvent_def)
qed

lemma createEvent_partial:
  assumes fresh: "nanoid \<notin> set (map ev_shareId (events d))"
    and w: "writesLeft d = Some (Suc k)" and k: "k < length ts"
  shows "\<exists>d'. createEvent nanoid event ts d = (Inl DatabaseError, d')
      \<and> events d' = events d @ [newEvent nanoid event d]
      \<and> time_options d' = time_options d @ stored (time_options_id_seq d) (events_id_seq d + 1) (take k ts)"
proof -
  have nr: "writesLeft d \<noteq> Some 0" using w by simp
  have c: "carried (length ts)
      (carriedOut (d\<lparr>events := events d @ [newEvent nanoid event d], events_id_seq := events_id_seq d + 1\<rparr>)) = k"
    using w k by (simp add: carried_def carriedOut_def)
  show ?thesis
    unfolding createEvent_eq [OF fresh nr] c
    using k by (simp add: carriedOut_tables newEvent_def)
qed

lemma createEvent_tables:
  assumes "createEvent nanoid event ts d = (res, d')"
  shows "participants d' = participants d" and "availability d' = availability d"
    and "events d' = events d
         \<or> (nanoid \<notin> set (map ev_shareId (events d)) \<and> events d' = events d @ [newEvent nanoid event d])"
proof -
  have "participants d' = participants d \<and> availability d' = availability d
    \<and> (events d' = events d
         \<or> (nanoid \<notin> set (map ev_shareId (events d)) \<and> events d' = events d @ [newEvent nanoid event d]))"
  proof (cases "nanoid \<in> set (map ev_shareId (events d)) \<or> writesLeft d = Some 0")
    case True
    then show ?thesis using assms createEvent_refused [OF True] by simp
  next
    case False
    then have fresh: "nanoid \<notin> set (map ev_shareId (events d))" and nr: "writesLeft d \<noteq> Some 0" by auto
    show ?thesis
      using assms fresh unfolding createEvent_eq [OF fresh nr]
      by (auto simp: carriedOut_tables)
  qed
  then show "participants d' = participants d" and "availability d' = availability d"
    and "events d' = events d
         \<or> (nanoid \<notin> set (map ev_shareId (events d)) \<and> events d' = events d @ [newEvent nanoid event d])"
    by auto
qed

lemma post_events_tables:
  assumes "post_events nanoid body d = (resp, d')"
  shows "participants d' = participants d" and "availability d' = availability d"
    and "events d' = events d
         \<or> (nanoid \<notin> set (map ev_shareId (events d)) \<and> (\<exists>row. ev_shareId row = nanoid \<and> events d' = events d @ [row]))"
proof -
  show "participants d' = participants d"
  proof (cases "createEventRequestSchema body")
    case (Inl e)
    then show ?thesis using assms by (simp add: post_events_def)
  next
    case (Inr parsed)
    obtain res d2 where ce: "createEvent nanoid (rq_event parsed) (rq_timeOptions parsed) d = (res, d2)"
      by (cases "createEvent nanoid (rq_event parsed) (rq_timeOptions parsed) d") auto
    then have "d' = d2" using assms Inr by (cases res) (simp_all add: post_events_def)
    then show ?thesis using createEvent_tables(1) [OF ce] by simp
  qed
  show "availability d' = availability d"
  proof (cases "createEventRequestSchema body")
    case (Inl e)
    then show ?thesis using assms by (simp add: post_events_def)
  next
    case (Inr parsed)
    obtain res d2 where ce: "createEvent nanoid (rq_event parsed) (rq_timeOptions parsed) d = (res, d2)"
      by (cases "createEvent nanoid (rq_event parsed) (rq_timeOptions parsed) d") auto
    then have "d' = d2" using assms Inr by (cases res) (simp_all add: post_events_def)
    then show ?thesis using createEvent_tables(2) [OF ce] by simp
  qed
  show "events d' = events d
         \<or> (nanoid \<notin> set (map ev_shareId (events d)) \<and> (\<exists>row. ev_shareId row = nanoid \<and> events d' = events d @ [row]))"
  proof (cases "createEventRequestSchema body")
    case (Inl e)
    then show ?thesis using assms by (simp add: post_events_def)
  next
    case (Inr parsed)
    obtain res d2 where ce: "createEvent nanoid (rq_event parsed) (rq_timeOptions parsed) d = (res, d2)"
      by (cases "createEvent nanoid (rq_event parsed) (rq_timeOptions parsed) d") auto
    then have "d' = d2" using assms Inr by (cases res) (simp_all add: post_events_def)
    moreover have "ev_shareId (newEvent nanoid (rq_event parsed) d) = nanoid" by (simp add: newEvent_def)
    ultimately show ?thesis using createEvent_tables(3) [OF ce] by blast
  qed
qed

section \<open>Server: participation\<close>

text \<open>
  What \<open>setAvailability\<close>, \<open>resolveParticipant\<close> and the participate route do to
  each table, on success and in general.
\<close>

lemma setAvailability_ok:
  assumes "setAvailability pid items d = (Inr u, d')"
  shows "availability d' = filter (\<lambda>a. av_participantId a \<noteq> pid) (availability d)
            @ serials (availability_id_seq d) (withParticipantId pid items)"
    and "events d' = events d" and "time_options d' = time_options d" and "participants d' = participants d"
proof -
  have nr: "\<not> refuses d" using assms by (auto simp: setAvailability_def delete_availability_def)
  have "availability d' = filter (\<lambda>a. av_participantId a \<noteq> pid) (availability d)
            @ serials (availability_id_seq d) (withParticipantId pid items)
      \<and> events d' = events d \<and> time_options d' = time_options d \<and> participants d' = participants d"
  proof (cases "items = []")
    case True
    then show ?thesis using assms nr
      by (auto simp: setAvailability_def delete_availability_def carriedOut_tables withParticipantId_def)
  next
    case False
    then show ?thesis using assms nr
      by (auto simp: setAvailability_def delete_availability_def insert_availability_def carriedOut_tables Let_def
          split: if_splits)
  qed
  then show "availability d' = filter (\<lambda>a. av_participantId a \<noteq> pid) (availability d)
            @ serials (availability_id_seq d) (withParticipantId pid items)"
    and "events d' = events d" and "time_options d' = time_options d" and "participants d' = participants d"
    by auto
qed

lemma setAvailability_tables:
  assumes "setAvailability pid items d = (res, d')"
  shows "events d' = events d" and "time_options d' = time_options d" and "participants d' = participants d"
    and "availability d' = availability d
       \<or> availability d' = filter (\<lambda>a. av_participantId a \<noteq> pid) (availability d)
       \<or> availability d' = filter (\<lambda>a. av_participantId a \<noteq> pid) (availability d)
            @ serials (availability_id_seq d) (withParticipantId pid items)"
proof -
  have "events d' = events d \<and> time_options d' = time_options d \<and> participants d' = participants d
    \<and> (availability d' = availability d
       \<or> availability d' = filter (\<lambda>a. av_participantId a \<noteq> pid) (availability d)
       \<or> availability d' = filter (\<lambda>a. av_participantId a \<noteq> pid) (availability d)
            @ serials (availability_id_seq d) (withParticipantId pid items))"
  proof (cases "refuses d")
    case True
    then show ?thesis using assms by (auto simp: setAvailability_def delete_availability_def)
  next
    case False
    then show ?thesis using assms
      by (auto simp: setAvailability_def delete_availability_def insert_availability_def carriedOut_tables Let_def
          split: if_splits)
  qed
  then show "events d' = events d" and "time_options d' = time_options d" and "participants d' = participants d"
    and "availability d' = availability d
       \<or> availability d' = filter (\<lambda>a. av_participantId a \<noteq> pid) (availability d)
       \<or> availability d' = filter (\<lambda>a. av_participantId a \<noteq> pid) (availability d)
            @ serials (availability_id_seq d) (withParticipantId pid items)"
    by auto
qed

lemma resolveParticipant_tables:
  assumes "resolveParticipant toLowerCase participant eventId d = (res, d')"
  shows "events d' = events d" and "time_options d' = time_options d" and "availability d' = availability d"
    and "availability_id_seq d' = availability_id_seq d"
  using assms
  by (auto simp: resolveParticipant_def createParticipant_def insert_participants_def carriedOut_tables Let_def
      split: option.splits if_splits)

lemma resolveParticipant_ok:
  assumes "resolveParticipant toLowerCase participant eventId d = (Inr pid, d')"
  shows "(\<exists>p. List.find (\<lambda>p. toLowerCase (pt_name p) = toLowerCase (pd_name participant))
                  (getParticipantsByEventId eventId d) = Some p \<and> pid = pt_id p \<and> d' = d)
       \<or> (List.find (\<lambda>p. toLowerCase (pt_name p) = toLowerCase (pd_name participant))
                  (getParticipantsByEventId eventId d) = None
           \<and> pid = participants_id_seq d + 1
           \<and> participants d' = participants d
                @ [\<lparr>pt_id = pid, pt_eventId = eventId, pt_name = pd_name participant\<rparr>])"
  using assms
  by (auto simp: resolveParticipant_def createParticipant_def insert_participants_def carriedOut_tables Let_def
      split: option.splits if_splits)

lemma post_participate_ok:
  assumes "post_participate toLowerCase shareId body d = (Json reply, d')"
  shows "\<exists>parsed event d1 u. participateRequestSchema body = Inr parsed
      \<and> getEventByShareId shareId d = Some event
      \<and> resolveParticipant toLowerCase (rq_participant parsed) (ev_id event) d = (Inr (pr_participantId reply), d1)
      \<and> setAvailability (pr_participantId reply) (rq_availability parsed) d1 = (Inr u, d')"
  using assms
  by (auto simp: post_participate_def split: sum.splits option.splits prod.splits)

lemma post_participate_tables:
  assumes "post_participate toLowerCase shareId body d = (resp, d')"
  shows "events d' = events d"
    and "availability d' = availability d
       \<or> (\<exists>parsed pid. participateRequestSchema body = Inr parsed
            \<and> (availability d' = filter (\<lambda>a. av_participantId a \<noteq> pid) (availability d)
               \<or> availability d' = filter (\<lambda>a. av_participantId a \<noteq> pid) (availability d)
                    @ serials (availability_id_seq d) (withParticipantId pid (rq_availability parsed))))"
proof -
  have "events d' = events d
    \<and> (availability d' = availability d
       \<or> (\<exists>parsed pid. participateRequestSchema body = Inr parsed
            \<and> (availability d' = filter (\<lambda>a. av_participantId a \<noteq> pid) (availability d)
               \<or> availability d' = filter (\<lambda>a. av_participantId a \<noteq> pid) (availability d)
                    @ serials (availability_id_seq d) (withParticipantId pid (rq_availability parsed)))))"
  proof (cases "participateRequestSchema body")
    case (Inl e)
    then show ?thesis using assms by (simp add: post_participate_def)
  next
    case (Inr parsed)
    show ?thesis
    proof (cases "getEventByShareId shareId d")
      case None
      then show ?thesis using assms Inr by (simp add: post_participate_def)
    next
      case (Some event)
      obtain r1 d1 where rp: "resolveParticipant toLowerCase (rq_participant parsed) (ev_id event) d = (r1, d1)"
        by (cases "resolveParticipant toLowerCase (rq_participant parsed) (ev_id event) d") auto
      note t1 = resolveParticipant_tables [OF rp]
      show ?thesis
      proof (cases r1)
        case (Inl e)
        then have "d' = d1" using assms Inr Some rp by (simp add: post_participate_def)
        then show ?thesis using t1 by simp
      next
        case (Inr pid)
        obtain r2 d2 where sa: "setAvailability pid (rq_availability parsed) d1 = (r2, d2)"
          by (cases "setAvailability pid (rq_availability parsed) d1") auto
        have "d' = d2" using assms \<open>participateRequestSchema body = Inr parsed\<close> Some rp Inr sa
          by (cases r2) (simp_all add: post_participate_def)
        then show ?thesis
          using setAvailability_tables [OF sa] t1 \<open>participateRequestSchema body = Inr parsed\<close>
          by auto
      qed
    qed
  qed
  then show "events d' = events d"
    and "availability d' = availability d
       \<or> (\<exists>parsed pid. participateRequestSchema body = Inr parsed
            \<and> (availability d' = filter (\<lambda>a. av_participantId a \<noteq> pid) (availability d)
               \<or> availability d' = filter (\<lambda>a. av_participantId a \<noteq> pid) (availability d)
                    @ serials (availability_id_seq d) (withParticipantId pid (rq_availability parsed))))"
    by auto
qed

section \<open>Server: invariants of the reachable states\<close>

text \<open>
  What \<open>participateRequestSchema\<close> lets through, and three invariants of the states
  that \<open>run\<close> reaches: known statuses, unique share ids and (for bodies that name
  each time option once) one response per participant and time option.
\<close>

lemma andThen_Inr: "andThen r f = Inr y \<longleftrightarrow> (\<exists>x. r = Inr x \<and> f x = Inr y)"
  by (cases r) (simp_all add: andThen_def)

lemma traverse_list_all:
  assumes "traverse p xs = Inr ys" and "\<And>x y. p x = Inr y \<Longrightarrow> Q y"
  shows "list_all Q ys"
  using assms(1)
proof (induction xs arbitrary: ys)
  case Nil
  then show ?case by simp
next
  case (Cons x xs)
  then obtain y ys' where "p x = Inr y" "traverse p xs = Inr ys'" "ys = y # ys'"
    by (auto simp: andThen_Inr)
  then show ?case using Cons.IH assms(2) by simp
qed

lemma z_enum_member: "z_enum values j = Inr s \<Longrightarrow> s \<in> set values"
  by (auto simp: z_enum_def andThen_Inr split: if_splits)

lemma required_Inr: "required p key properties = Inr x \<Longrightarrow> \<exists>v. p v = Inr x"
  by (auto simp: required_def split: option.splits)

lemma availabilityItemSchema_status:
  assumes "availabilityItemSchema j = Inr item"
  shows "knownStatus (ai_status item)"
proof -
  from assms obtain properties timeOptionId status where
    "required (z_enum [''available'', ''maybe'', ''unavailable'']) ''status'' properties = Inr status"
    and "item = \<lparr>ai_timeOptionId = timeOptionId, ai_status = status\<rparr>"
    unfolding availabilityItemSchema_def andThen_Inr by auto
  then show ?thesis
    using required_Inr z_enum_member by (fastforce simp: knownStatus_def)
qed

lemma z_array_list_all:
  assumes "z_array p j = Inr ys" and "\<And>x y. p x = Inr y \<Longrightarrow> Q y"
  shows "list_all Q ys"
  using assms traverse_list_all [of p _ ys Q] by (cases j) simp_all

lemma participateRequestSchema_status:
  assumes "participateRequestSchema body = Inr parsed"
  shows "list_all (\<lambda>item. knownStatus (ai_status item)) (rq_availability parsed)"
proof -
  from assms obtain properties availabilityList where
    "required (z_array availabilityItemSchema) ''availability'' properties = Inr availabilityList"
    and "rq_availability parsed = availabilityList"
    unfolding participateRequestSchema_def andThen_Inr by auto
  then obtain v where "z_array availabilityItemSchema v = Inr (rq_availability parsed)"
    using required_Inr by fastforce
  then show ?thesis
    by (rule z_array_list_all) (rule availabilityItemSchema_status)
qed

lemma serials_columns:
  "map av_status (serials n (withParticipantId pid items)) = map ai_status items"
  "map av_timeOptionId (serials n (withParticipantId pid items)) = map ai_timeOptionId items"
  "map av_participantId (serials n (withParticipantId pid items)) = map (\<lambda>item. pid) items"
  by (induction items arbitrary: n) (simp_all add: withParticipantId_def)

lemma knownStatuses_post_participate:
  assumes "knownStatuses d" and "post_participate toLowerCase shareId body d = (resp, d')"
  shows "knownStatuses d'"
proof -
  from post_participate_tables(2) [OF assms(2)]
  consider "availability d' = availability d"
    | parsed pid where "participateRequestSchema body = Inr parsed"
        "availability d' = filter (\<lambda>a. av_participantId a \<noteq> pid) (availability d)"
    | parsed pid where "participateRequestSchema body = Inr parsed"
        "availability d' = filter (\<lambda>a. av_participantId a \<noteq> pid) (availability d)
                    @ serials (availability_id_seq d) (withParticipantId pid (rq_availability parsed))"
    by blast
  then show ?thesis
  proof cases
    case 1
    then show ?thesis using assms(1) by (simp add: knownStatuses_def)
  next
    case 2
    then show ?thesis using assms(1) by (simp add: knownStatuses_def list_all_iff)
  next
    case 3
    have "list_all knownStatus (map ai_status (rq_availability parsed))"
      using participateRequestSchema_status [OF 3(1)] by (simp add: list_all_iff)
    then have "list_all knownStatus (map av_status (serials (availability_id_seq d) (withParticipantId pid (rq_availability parsed))))"
      by (simp only: serials_columns)
    then show ?thesis using assms(1) 3(2) by (auto simp: knownStatuses_def list_all_iff)
  qed
qed

lemma serials_keys:
  "map (\<lambda>a. (av_participantId a, av_timeOptionId a)) (serials n (withParticipantId pid items))
     = map (Pair pid) (map ai_timeOptionId items)"
  by (induction items arbitrary: n) (simp_all add: withParticipantId_def)

lemma onePerPair_post_participate:
  assumes "onePerPair d" and "distinctTimeOptionIds body"
    and "post_participate toLowerCase shareId body d = (resp, d')"
  shows "onePerPair d'"
proof -
  let ?key = "\<lambda>a. (av_participantId a, av_timeOptionId a)"
  from post_participate_tables(2) [OF assms(3)]
  consider "availability d' = availability d"
    | parsed pid where "participateRequestSchema body = Inr parsed"
        "availability d' = filter (\<lambda>a. av_participantId a \<noteq> pid) (availability d)"
    | parsed pid where "participateRequestSchema body = Inr parsed"
        "availability d' = filter (\<lambda>a. av_participantId a \<noteq> pid) (availability d)
                    @ serials (availability_id_seq d) (withParticipantId pid (rq_availability parsed))"
    by blast
  then show ?thesis
  proof cases
    case 1
    then show ?thesis using assms(1) by (simp add: onePerPair_def)
  next
    case 2
    then show ?thesis using assms(1) by (simp add: onePerPair_def distinct_map_filter)
  next
    case 3
    let ?new = "serials (availability_id_seq d) (withParticipantId pid (rq_availability parsed))"
    have ids: "distinct (map ai_timeOptionId (rq_availability parsed))"
      using assms(2) 3(1) by (simp add: distinctTimeOptionIds_def)
    have new: "map ?key ?new = map (Pair pid) (map ai_timeOptionId (rq_availability parsed))"
      by (rule serials_keys)
    have "distinct (map (Pair pid) (map ai_timeOptionId (rq_availability parsed)))"
      using ids by (simp add: distinct_map inj_on_def)
    then have d1: "distinct (map ?key ?new)" by (simp only: new)
    have d2: "distinct (map ?key (filter (\<lambda>a. av_participantId a \<noteq> pid) (availability d)))"
      using assms(1) by (simp add: onePerPair_def distinct_map_filter)
    have "fst k = pid" if "k \<in> set (map ?key ?new)" for k
      using that unfolding new by auto
    moreover have "fst k \<noteq> pid" if "k \<in> set (map ?key (filter (\<lambda>a. av_participantId a \<noteq> pid) (availability d)))" for k
      using that by auto
    ultimately have d3: "set (map ?key (filter (\<lambda>a. av_participantId a \<noteq> pid) (availability d))) \<inter> set (map ?key ?new) = {}"
      by blast
    show ?thesis
      unfolding onePerPair_def 3(2) map_append distinct_append
      using d1 d2 d3 by blast
  qed
qed

lemma handle_cases:
  assumes post: "\<And>nanoid body resp d'. post_events nanoid body (d\<lparr>writesLeft := w\<rparr>) = (resp, d') \<Longrightarrow> P d'"
    and get: "P (d\<lparr>writesLeft := w\<rparr>)"
    and part: "\<And>shareId body resp d'. r = PostParticipate shareId body
         \<Longrightarrow> post_participate toLowerCase shareId body (d\<lparr>writesLeft := w\<rparr>) = (resp, d') \<Longrightarrow> P d'"
  shows "P (handle toLowerCase (w, r) d)"
proof (cases r)
  case (PostEvents nanoid body)
  then show ?thesis using post [of nanoid body] by (cases "post_events nanoid body (d\<lparr>writesLeft := w\<rparr>)") simp
next
  case (GetEvent shareId)
  then show ?thesis using get by simp
next
  case (PostParticipate shareId body)
  then show ?thesis using part [of shareId body]
    by (cases "post_participate toLowerCase shareId body (d\<lparr>writesLeft := w\<rparr>)") simp
qed

lemma knownStatuses_handle:
  assumes "knownStatuses d"
  shows "knownStatuses (handle toLowerCase (w, r) d)"
proof (rule handle_cases)
  have k: "knownStatuses (d\<lparr>writesLeft := w\<rparr>)" using assms by (simp add: knownStatuses_def)
  show "knownStatuses (d\<lparr>writesLeft := w\<rparr>)" by (rule k)
  show "knownStatuses d'" if "post_events nanoid body (d\<lparr>writesLeft := w\<rparr>) = (resp, d')" for nanoid body resp d'
    using post_events_tables(2) [OF that] k by (simp add: knownStatuses_def)
  show "knownStatuses d'" if "post_participate toLowerCase shareId body (d\<lparr>writesLeft := w\<rparr>) = (resp, d')"
    for shareId body resp d'
    using k that by (rule knownStatuses_post_participate)
qed

lemma knownStatuses_run:
  "knownStatuses d \<Longrightarrow> knownStatuses (run toLowerCase requests d)"
  unfolding run_def
proof (induction requests arbitrary: d)
  case Nil
  then show ?case by simp
next
  case (Cons r requests)
  obtain w q where "r = (w, q)" by (cases r)
  then show ?case using Cons.IH Cons.prems knownStatuses_handle by simp
qed



lemma onePerPair_handle:
  assumes "onePerPair d" and "oncePerTimeOption (w, r)"
  shows "onePerPair (handle toLowerCase (w, r) d)"
proof (rule handle_cases)
  have k: "onePerPair (d\<lparr>writesLeft := w\<rparr>)" using assms by (simp add: onePerPair_def)
  show "onePerPair (d\<lparr>writesLeft := w\<rparr>)" by (rule k)
  show "onePerPair d'" if "post_events nanoid body (d\<lparr>writesLeft := w\<rparr>) = (resp, d')" for nanoid body resp d'
    using post_events_tables(2) [OF that] k by (simp add: onePerPair_def)
  show "onePerPair d'" if "r = PostParticipate shareId body"
    and "post_participate toLowerCase shareId body (d\<lparr>writesLeft := w\<rparr>) = (resp, d')"
    for shareId body resp d'
    using k assms(2) that by (auto intro: onePerPair_post_participate)
qed

lemma onePerPair_run:
  "onePerPair d \<Longrightarrow> list_all oncePerTimeOption requests \<Longrightarrow> onePerPair (run toLowerCase requests d)"
  unfolding run_def
proof (induction requests arbitrary: d)
  case Nil
  then show ?case by simp
next
  case (Cons r requests)
  obtain w q where "r = (w, q)" by (cases r)
  then show ?case using Cons.IH Cons.prems onePerPair_handle by simp
qed

section \<open>Server: aggregation, lookup and the resolution of names\<close>

lemma filter_count_list: "length (filter (\<lambda>a. f a = s) rs) = count_list (map f rs) s"
  by (induction rs) simp_all

lemma availabilityCountOf_buckets:
  "available (availabilityCountOf rs) = count_list (map av_status rs) ''available''"
  "maybe (availabilityCountOf rs) = count_list (map av_status rs) ''maybe''"
  "unavailable (availabilityCountOf rs) = count_list (map av_status rs) ''unavailable''"
  "total (availabilityCountOf rs) = length rs"
  by (simp_all add: availabilityCountOf_def filter_count_list)

lemma availabilityCountOf_total:
  assumes "list_all (\<lambda>a. knownStatus (av_status a)) rs"
  shows "total (availabilityCountOf rs)
     = available (availabilityCountOf rs) + maybe (availabilityCountOf rs) + unavailable (availabilityCountOf rs)"
  using assms by (induction rs) (auto simp: availabilityCountOf_def knownStatus_def)

lemma availabilityCountOf_consistent: "consistent (availabilityCountOf rs)"
  by (induction rs) (auto simp: availabilityCountOf_def consistent_def)

lemma getEventByShareId_options:
  assumes "getEventByShareId shareId d = Some event" and "option \<in> set (ewd_timeOptions event)"
  shows "availabilityCount option = availabilityCountOf (responsesTo (to_id option) d)"
proof -
  from assms(1) obtain e es where "filter (\<lambda>e. ev_shareId e = shareId) (events d) = e # es"
    and "ewd_timeOptions event = map (withAvailability d) (filter (\<lambda>t. to_eventId t = ev_id e) (time_options d))"
    by (auto simp: getEventByShareId_def Let_def split: list.splits)
  then obtain t where "option = withAvailability d t" using assms(2) by auto
  then show ?thesis by (simp add: withAvailability_def Let_def responsesTo_def)
qed





lemma serials_own:
  "filter (\<lambda>a. av_participantId a = pid) (serials n (withParticipantId pid items)) = serials n (withParticipantId pid items)"
  by (induction items arbitrary: n) (simp_all add: withParticipantId_def)

lemma serials_answers:
  "map answer (serials n (withParticipantId pid items)) = map submitted items"
  by (induction items arbitrary: n) (simp_all add: withParticipantId_def answer_def submitted_def)

lemma setAvailability_responsesOf:
  assumes "setAvailability pid items d = (Inr u, d')"
  shows "map answer (responsesOf pid d') = map submitted items"
  unfolding responsesOf_def setAvailability_ok(1) [OF assms]
  by (simp add: serials_own serials_answers)

lemma getEventByShareId_ev_id:
  assumes "events d' = events d" and "getEventByShareId shareId d = Some e"
    and "getEventByShareId shareId d' = Some e'"
  shows "ev_id e' = ev_id e"
  using assms by (auto simp: getEventByShareId_def Let_def split: list.splits)

lemma find_None_filter: "List.find P xs = None \<Longrightarrow> filter P xs = []"
  by (induction xs) (auto split: if_splits)

lemma find_Some_filter: "List.find P xs = Some x \<Longrightarrow> filter P xs \<noteq> []"
  by (induction xs) (auto split: if_splits)

lemma find_append_new: "List.find P xs = None \<Longrightarrow> P x \<Longrightarrow> List.find P (xs @ [x]) = Some x"
  by (induction xs) (auto split: if_splits)

lemma namesakes_filter:
  "namesakes toLowerCase eventId name d
     = filter (\<lambda>p. toLowerCase (pt_name p) = toLowerCase name) (getParticipantsByEventId eventId d)"
  by (simp add: namesakes_def getParticipantsByEventId_def)

lemma namesakes_append:
  "participants d' = participants d @ [row] \<Longrightarrow>
   namesakes toLowerCase eventId name d'
     = namesakes toLowerCase eventId name d
       @ (if pt_eventId row = eventId \<and> toLowerCase (pt_name row) = toLowerCase name then [row] else [])"
  by (simp add: namesakes_def)

lemma namesakes_resolveParticipant:
  assumes inv: "\<forall>eventId name. length (namesakes toLowerCase eventId name d) \<le> 1"
    and r: "resolveParticipant toLowerCase participant eid d = (res, d')"
  shows "length (namesakes toLowerCase eventId name d') \<le> 1"
proof (cases "List.find (\<lambda>p. toLowerCase (pt_name p) = toLowerCase (pd_name participant)) (getParticipantsByEventId eid d)")
  case (Some p)
  then have "d' = d" using r by (simp add: resolveParticipant_def)
  then show ?thesis using inv by simp
next
  case None
  show ?thesis
  proof (cases "refuses d")
    case True
    then have "d' = d" using r None
      by (simp add: resolveParticipant_def createParticipant_def insert_participants_def)
    then show ?thesis using inv by simp
  next
    case False
    let ?row = "\<lparr>pt_id = participants_id_seq d + 1, pt_eventId = eid, pt_name = pd_name participant\<rparr>"
    have p: "participants d' = participants d @ [?row]"
      using r None False
      by (auto simp: resolveParticipant_def createParticipant_def insert_participants_def carriedOut_tables Let_def)
    have none: "namesakes toLowerCase eid (pd_name participant) d = []"
      unfolding namesakes_filter using None by (rule find_None_filter)
    show ?thesis
    proof (cases "eid = eventId \<and> toLowerCase (pd_name participant) = toLowerCase name")
      case True
      then have "namesakes toLowerCase eventId name d = namesakes toLowerCase eid (pd_name participant) d"
        by (simp add: namesakes_def)
      then show ?thesis unfolding namesakes_append [OF p] using none True by simp
    next
      case False
      then show ?thesis unfolding namesakes_append [OF p] using inv by auto
    qed
  qed
qed

lemma namesakes_post_participate:
  assumes inv: "\<forall>eventId name. length (namesakes toLowerCase eventId name d) \<le> 1"
    and s: "post_participate toLowerCase shareId body d = (resp, d')"
  shows "length (namesakes toLowerCase eventId name d') \<le> 1"
proof (cases "participateRequestSchema body")
  case (Inl e)
  then have "d' = d" using s by (simp add: post_participate_def)
  then show ?thesis using inv by simp
next
  case (Inr parsed)
  show ?thesis
  proof (cases "getEventByShareId shareId d")
    case None
    then have "d' = d" using s Inr by (simp add: post_participate_def)
    then show ?thesis using inv by simp
  next
    case (Some event)
    obtain r1 d1 where rp: "resolveParticipant toLowerCase (rq_participant parsed) (ev_id event) d = (r1, d1)"
      by (cases "resolveParticipant toLowerCase (rq_participant parsed) (ev_id event) d") auto
    have n1: "length (namesakes toLowerCase eventId name d1) \<le> 1"
      using inv rp by (rule namesakes_resolveParticipant)
    show ?thesis
    proof (cases r1)
      case (Inl e)
      then have "d' = d1" using s Inr Some rp by (simp add: post_participate_def)
      then show ?thesis using n1 by simp
    next
      case (Inr pid)
      obtain r2 d2 where sa: "setAvailability pid (rq_availability parsed) d1 = (r2, d2)"
        by (cases "setAvailability pid (rq_availability parsed) d1") auto
      have "d' = d2" using s \<open>participateRequestSchema body = Inr parsed\<close> Some rp Inr sa
        by (cases r2) (simp_all add: post_participate_def)
      then have "participants d' = participants d1" using setAvailability_tables(3) [OF sa] by simp
      then have "namesakes toLowerCase eventId name d' = namesakes toLowerCase eventId name d1"
        by (simp add: namesakes_def)
      then show ?thesis using n1 by simp
    qed
  qed
qed

lemma namesakes_handle:
  assumes "\<forall>eventId name. length (namesakes toLowerCase eventId name d) \<le> 1"
  shows "\<forall>eventId name. length (namesakes toLowerCase eventId name (handle toLowerCase (w, r) d)) \<le> 1"
proof (rule handle_cases)
  have k: "\<forall>eventId name. length (namesakes toLowerCase eventId name (d\<lparr>writesLeft := w\<rparr>)) \<le> 1"
    using assms by (simp add: namesakes_def)
  show "\<forall>eventId name. length (namesakes toLowerCase eventId name (d\<lparr>writesLeft := w\<rparr>)) \<le> 1" by (rule k)
  show "\<forall>eventId name. length (namesakes toLowerCase eventId name d') \<le> 1"
    if "post_events nanoid body (d\<lparr>writesLeft := w\<rparr>) = (resp, d')" for nanoid body resp d'
    using post_events_tables(1) [OF that] k by (simp add: namesakes_def)
  show "\<forall>eventId name. length (namesakes toLowerCase eventId name d') \<le> 1"
    if "post_participate toLowerCase shareId body (d\<lparr>writesLeft := w\<rparr>) = (resp, d')"
    for shareId body resp d'
    using namesakes_post_participate [OF k that] by blast
qed

lemma namesakes_run:
  "\<forall>eventId name. length (namesakes toLowerCase eventId name d) \<le> 1 \<Longrightarrow>
   length (namesakes toLowerCase eventId name (run toLowerCase requests d)) \<le> 1"
  unfolding run_def
proof (induction requests arbitrary: d)
  case Nil
  then show ?case by simp
next
  case (Cons r requests)
  obtain w q where "r = (w, q)" by (cases r)
  then show ?case using Cons.IH [OF namesakes_handle [OF Cons.prems]] by simp
qed

lemma namesakes_reachable:
  "length (namesakes toLowerCase eventId name (run toLowerCase requests initial)) \<le> 1"
  by (rule namesakes_run) (simp add: namesakes_def initial_def)

section \<open>Client: what the create-event form sends\<close>

lemma timeOptionSchema_form:
  "timeOptionSchema (timeOptionWithEndTime calculateEndTime duration option)
     = Inr \<lparr>td_date = ft_date option,
            td_startTime = (if isMultiDay duration then ''09:00'' else ft_startTime option),
            td_endTime = calculateEndTime (if isMultiDay duration then ''09:00'' else ft_startTime option) duration\<rparr>"
  by (simp add: timeOptionSchema_def timeOptionWithEndTime_def andThen_def required_def)

lemma traverse_map_Inr:
  assumes "\<And>x. p (f x) = Inr (g x)"
  shows "traverse p (map f xs) = Inr (map g xs)"
  by (induction xs) (simp_all add: assms andThen_def)

lemma insertEventSchema_form:
  "insertEventSchema (formDataJson data)
     = Inr \<lparr>ie_title = fd_title data, ie_description = fd_description data, ie_duration = fd_duration data\<rparr>"
  by (cases "fd_description data")
     (simp_all add: insertEventSchema_def formDataJson_def andThen_def required_def nullish_def)

lemma onSubmit_parsed:
  assumes "onSubmit calculateEndTime data timeOptions = Some body"
  shows "\<exists>parsed. createEventRequestSchema body = Inr parsed
      \<and> length (rq_timeOptions parsed) = length (validTimeOptions (fd_duration data) timeOptions)
      \<and> rq_timeOptions parsed \<noteq> []"
proof -
  let ?valid = "validTimeOptions (fd_duration data) timeOptions"
  have ne: "?valid \<noteq> []" using assms by (auto simp: onSubmit_def Let_def split: if_splits)
  have body: "body = JObject [(''event'', formDataJson data),
      (''timeOptions'', JArray (map (timeOptionWithEndTime calculateEndTime (fd_duration data)) ?valid))]"
    using assms by (auto simp: onSubmit_def Let_def split: if_splits)
  have tr: "traverse timeOptionSchema (map (timeOptionWithEndTime calculateEndTime (fd_duration data)) ?valid)
      = Inr (map (\<lambda>option. \<lparr>td_date = ft_date option,
            td_startTime = (if isMultiDay (fd_duration data) then ''09:00'' else ft_startTime option),
            td_endTime = calculateEndTime (if isMultiDay (fd_duration data) then ''09:00'' else ft_startTime option) (fd_duration data)\<rparr>) ?valid)"
    by (rule traverse_map_Inr) (rule timeOptionSchema_form)
  show ?thesis
    unfolding body using ne
    by (simp add: createEventRequestSchema_def andThen_def required_def insertEventSchema_form tr)
qed

lemma onSubmit_refuses:
  "validTimeOptions (fd_duration data) timeOptions = [] \<Longrightarrow> onSubmit calculateEndTime data timeOptions = None"
  by (simp add: onSubmit_def)

section \<open>Worked examples: evaluation\<close>

text \<open>The requests of the examples, evaluated step by step.\<close>

lemmas schema_defs =
  createEventRequestSchema_def participateRequestSchema_def insertEventSchema_def
  insertParticipantSchema_omit_eventId_def timeOptionSchema_def availabilityItemSchema_def
  andThen_def required_def nullish_def z_enum_def createEventBody_def participateBody_def

lemmas storage_defs =
  createEvent_def insert_events_def insert_time_options_def insert_participants_def
  delete_availability_def insert_availability_def setAvailability_def createParticipant_def
  getParticipantsByEventId_def resolveParticipant_def withParticipantId_def orNull_def
  refuses_def carriedOut_def Let_def

lemma lunchBody_parsed:
  "createEventRequestSchema lunchBody =
     Inr \<lparr>rq_event = \<lparr>ie_title = ''Lunch'', ie_description = None, ie_duration = ''1 hour''\<rparr>,
          rq_timeOptions = [\<lparr>td_date = ''2024-06-01'', td_startTime = ''12:00'', td_endTime = ''13:00''\<rparr>,
                            \<lparr>td_date = ''2024-06-02'', td_startTime = ''12:00'', td_endTime = ''13:00''\<rparr>]\<rparr>"
  by (simp add: lunchBody_def schema_defs)

lemma lunch_created:
  "post_events ''V1StGXR8_Z'' lunchBody initial
     = (Json \<lparr>ev_id = 1, ev_title = ''Lunch'', ev_description = None, ev_duration = ''1 hour'',
              ev_shareId = ''V1StGXR8_Z'', ewt_timeOptions = lunchOptions\<rparr>, lunchDb)"
  by (simp add: post_events_def lunchBody_parsed storage_defs initial_def lunchDb_def lunchEvent_def lunchOptions_def)

lemma lunch_lookup:
  "getEventByShareId ''V1StGXR8_Z'' lunchDb =
     Some \<lparr>ev_id = 1, ev_title = ''Lunch'', ev_description = None, ev_duration = ''1 hour'',
              ev_shareId = ''V1StGXR8_Z'',
              ewd_timeOptions =
                [\<lparr>to_id = 1, to_eventId = 1, to_date = ''2024-06-01'', to_startTime = ''12:00'', to_endTime = ''13:00'',
                  availabilityCount = \<lparr>available = 0, maybe = 0, unavailable = 0, total = 0\<rparr>, to_participants = []\<rparr>,
                 \<lparr>to_id = 2, to_eventId = 1, to_date = ''2024-06-02'', to_startTime = ''12:00'', to_endTime = ''13:00'',
                  availabilityCount = \<lparr>available = 0, maybe = 0, unavailable = 0, total = 0\<rparr>, to_participants = []\<rparr>],
              participantCount = 0\<rparr>"
  by (simp add: getEventByShareId_def withAvailability_def availabilityCountOf_def lunchDb_def lunchEvent_def lunchOptions_def)

lemma alice_parsed:
  "participateRequestSchema (participateBody ''Alice'' [(1, ''available''), (2, ''maybe'')])
     = Inr \<lparr>rq_participant = \<lparr>pd_name = ''Alice''\<rparr>,
            rq_availability = [\<lparr>ai_timeOptionId = 1, ai_status = ''available''\<rparr>,
                               \<lparr>ai_timeOptionId = 2, ai_status = ''maybe''\<rparr>]\<rparr>"
  by (simp add: schema_defs)

lemma alice_first:
  "post_participate asciiLower ''V1StGXR8_Z'' (participateBody ''Alice'' [(1, ''available''), (2, ''maybe'')]) lunchDb
     = (Json \<lparr>pr_success = True, pr_participantId = 1\<rparr>, aliceDb)"
  by (simp add: post_participate_def alice_parsed lunch_lookup)
     (simp add: storage_defs lunchDb_def aliceDb_def)

lemma bob_parsed:
  "participateRequestSchema (participateBody ''Bob'' [(1, ''available''), (2, ''maybe'')])
     = Inr \<lparr>rq_participant = \<lparr>pd_name = ''Bob''\<rparr>,
            rq_availability = [\<lparr>ai_timeOptionId = 1, ai_status = ''available''\<rparr>,
                               \<lparr>ai_timeOptionId = 2, ai_status = ''maybe''\<rparr>]\<rparr>"
  by (simp add: schema_defs)

lemma bob_participates:
  "post_participate asciiLower ''V1StGXR8_Z'' (participateBody ''Bob'' [(1, ''available''), (2, ''maybe'')]) lunchDb
     = (Json \<lparr>pr_success = True, pr_participantId = 1\<rparr>, bobDb)"
  by (simp add: post_participate_def bob_parsed lunch_lookup)
     (simp add: storage_defs lunchDb_def bobDb_def)

lemma writesLeft_None: "initial\<lparr>writesLeft := None\<rparr> = initial" "lunchDb\<lparr>writesLeft := None\<rparr> = lunchDb"
  by (simp_all add: initial_def lunchDb_def)

lemma roundTrip_run: "run asciiLower roundTrip initial = bobDb"
  by (simp add: run_def roundTrip_def writesLeft_None lunch_created bob_participates)

lemma bob_lookup: "getEventByShareId ''V1StGXR8_Z'' bobDb = Some bobView"
  by (simp add: getEventByShareId_def withAvailability_def availabilityCountOf_def participantWithStatus_def
      bobDb_def lunchDb_def lunchEvent_def lunchOptions_def bobView_def bobOption1_def bobOption2_def)

lemma emptyBody_parsed:
  "createEventRequestSchema emptyBody = Inr \<lparr>rq_event = lunchDraft, rq_timeOptions = []\<rparr>"
  by (simp add: emptyBody_def schema_defs lunchDraft_def)

lemma twice_parsed:
  "participateRequestSchema twiceBody
     = Inr \<lparr>rq_participant = \<lparr>pd_name = ''Bob''\<rparr>,
            rq_availability = [\<lparr>ai_timeOptionId = 1, ai_status = ''available''\<rparr>,
                               \<lparr>ai_timeOptionId = 1, ai_status = ''maybe''\<rparr>]\<rparr>"
  by (simp add: twiceBody_def schema_defs)

lemma twice_participates:
  "post_participate asciiLower ''V1StGXR8_Z'' twiceBody lunchDb
     = (Json \<lparr>pr_success = True, pr_participantId = 1\<rparr>,
        lunchDb\<lparr>participants := [\<lparr>pt_id = 1, pt_eventId = 1, pt_name = ''Bob''\<rparr>],
           participants_id_seq := 1,
           availability := [\<lparr>av_id = 1, av_participantId = 1, av_timeOptionId = 1, av_status = ''available''\<rparr>,
                            \<lparr>av_id = 2, av_participantId = 1, av_timeOptionId = 1, av_status = ''maybe''\<rparr>],
           availability_id_seq := 2\<rparr>)"
  by (simp add: post_participate_def twice_parsed lunch_lookup)
     (simp add: storage_defs lunchDb_def)

lemma distinct_key_at_most_one:
  assumes "distinct (map f xs)"
  shows "length (filter (\<lambda>x. f x = k) xs) \<le> 1"
  using assms by (induction xs) (auto simp: filter_empty_conv image_iff)

lemma serials_mentions:
  "length (filter (\<lambda>a. av_participantId a = pid \<and> av_timeOptionId a = t) (serials n (withParticipantId pid items)))
     = count_list (map ai_timeOptionId items) t"
  by (induction items arbitrary: n) (simp_all add: withParticipantId_def)

lemma setAvailability_mentions:
  assumes "setAvailability pid items d = (Inr u, d')"
  shows "length (pairRows pid t d') = count_list (map ai_timeOptionId items) t"
proof -
  have "filter (\<lambda>a. av_participantId a = pid \<and> av_timeOptionId a = t)
          (filter (\<lambda>a. av_participantId a \<noteq> pid) (availability d)) = []"
    by (simp add: filter_empty_conv)
  then show ?thesis
    unfolding pairRows_def setAvailability_ok(1) [OF assms]
    by (simp add: serials_mentions)
qed

lemma post_participate_mentions:
  assumes "post_participate toLowerCase shareId body d = (Json reply, d')"
    and "participateRequestSchema body = Inr parsed"
  shows "length (pairRows (pr_participantId reply) t d')
     = count_list (map ai_timeOptionId (rq_availability parsed)) t"
proof -
  from post_participate_ok [OF assms(1)] assms(2) obtain d1 u where
    "setAvailability (pr_participantId reply) (rq_availability parsed) d1 = (Inr u, d')"
    by auto
  then show ?thesis by (rule setAvailability_mentions)
qed

lemma setAvailability_statements:
  assumes "writesLeft d = None"
  shows "setAvailability pid items d = (Inr (), fold execute (statementsOf pid items) d)"
  using assms
  by (simp add: setAvailability_def statementsOf_def delete_availability_def insert_availability_def
      refuses_def carriedOut_def Let_def)

lemma overlap_is_interleaving:
  assumes "items1 \<noteq> []" and "items2 \<noteq> []"
  shows "[Delete pid, Delete pid, Insert pid items1, Insert pid items2]
     \<in> set (interleavings (statementsOf pid items1) (statementsOf pid items2))"
  using assms by (simp add: statementsOf_def)

lemma overlap_rows:
  assumes "writesLeft d = None"
  shows "length (pairRows pid t (fold execute [Delete pid, Delete pid, Insert pid items1, Insert pid items2] d))
     = count_list (map ai_timeOptionId items1) t + count_list (map ai_timeOptionId items2) t"
proof -
  have "filter (\<lambda>a. av_participantId a = pid \<and> av_timeOptionId a = t)
          (filter (\<lambda>a. av_participantId a \<noteq> pid) (filter (\<lambda>a. av_participantId a \<noteq> pid) (availability d))) = []"
    by (simp add: filter_empty_conv)
  then show ?thesis
    using assms
    by (simp add: pairRows_def delete_availability_def insert_availability_def refuses_def carriedOut_def
        serials_mentions)
qed

lemma aliceAgain_parsed:
  "participateRequestSchema aliceAgain
     = Inr \<lparr>rq_participant = \<lparr>pd_name = ''alice''\<rparr>,
            rq_availability = [\<lparr>ai_timeOptionId = 1, ai_status = ''unavailable''\<rparr>]\<rparr>"
  by (simp add: aliceAgain_def schema_defs)

lemma alice_lookup: "\<exists>event. getEventByShareId ''V1StGXR8_Z'' (aliceDb\<lparr>writesLeft := None\<rparr>) = Some event \<and> ev_id event = 1"
  by (simp add: getEventByShareId_def aliceDb_def lunchDb_def lunchEvent_def)

lemma asciiLower_alice: "asciiLower ''Alice'' = ''alice''" "asciiLower ''alice'' = ''alice''"
  by (simp_all add: asciiLower_def)

lemma alice_second:
  "post_participate asciiLower ''V1StGXR8_Z'' aliceAgain (aliceDb\<lparr>writesLeft := None\<rparr>)
     = (Json \<lparr>pr_success = True, pr_participantId = 1\<rparr>, aliceDb2)"
proof -
  from alice_lookup obtain event where
    e: "getEventByShareId ''V1StGXR8_Z'' (aliceDb\<lparr>writesLeft := None\<rparr>) = Some event" "ev_id event = 1"
    by blast
  show ?thesis
    by (simp add: post_participate_def aliceAgain_parsed e)
       (simp add: storage_defs asciiLower_alice aliceDb_def aliceDb2_def lunchDb_def)
qed

section \<open>Server: the claims\<close>

text \<open>
  Claim C2. In every state the server reaches from the empty database, whatever the
  requests and the failures of the connection were: for every time option of an event
  that \<open>getEventByShareId\<close> returns, the count satisfies total = available + maybe +
  unavailable, each bucket is the number of the option's stored responses whose status
  is that bucket's label, and the total is the number of the option's responses. The
  sum holds because \<open>participateRequestSchema\<close> lets no other status through
  (\<open>knownStatuses_run\<close>).
\<close>

theorem availabilityCount_buckets:
  assumes "getEventByShareId shareId (run toLowerCase requests initial) = Some event"
    and "option \<in> set (ewd_timeOptions event)"
  shows "total (availabilityCount option)
           = available (availabilityCount option) + maybe (availabilityCount option) + unavailable (availabilityCount option)
    \<and> available (availabilityCount option)
           = count_list (map av_status (responsesTo (to_id option) (run toLowerCase requests initial))) ''available''
    \<and> maybe (availabilityCount option)
           = count_list (map av_status (responsesTo (to_id option) (run toLowerCase requests initial))) ''maybe''
    \<and> unavailable (availabilityCount option)
           = count_list (map av_status (responsesTo (to_id option) (run toLowerCase requests initial))) ''unavailable''
    \<and> total (availabilityCount option) = length (responsesTo (to_id option) (run toLowerCase requests initial))"
proof -
  let ?d = "run toLowerCase requests initial"
  have "knownStatuses initial" by (simp add: knownStatuses_def initial_def)
  then have "knownStatuses ?d" by (rule knownStatuses_run)
  then have "list_all (\<lambda>a. knownStatus (av_status a)) (responsesTo (to_id option) ?d)"
    by (simp add: knownStatuses_def responsesTo_def list_all_iff)
  then show ?thesis
    using availabilityCountOf_total availabilityCountOf_buckets
    unfolding getEventByShareId_options [OF assms] by simp
qed

text \<open>
  The round trip of the specification: Bob answers "available" and "maybe"; the first
  option then counts 1/0/0 of 1.
\<close>

theorem availabilityCount_buckets_witness:
  "getEventByShareId ''V1StGXR8_Z'' (run asciiLower roundTrip initial) = Some bobView
   \<and> bobOption1 \<in> set (ewd_timeOptions bobView)
   \<and> availabilityCount bobOption1 = \<lparr>available = 1, maybe = 0, unavailable = 0, total = 1\<rparr>
   \<and> total (availabilityCount bobOption1)
        = available (availabilityCount bobOption1) + maybe (availabilityCount bobOption1)
          + unavailable (availabilityCount bobOption1)
   \<and> available (availabilityCount bobOption1)
        = count_list (map av_status (responsesTo (to_id bobOption1) (run asciiLower roundTrip initial))) ''available''"
proof -
  have h1: "getEventByShareId ''V1StGXR8_Z'' (run asciiLower roundTrip initial) = Some bobView"
    by (simp add: roundTrip_run bob_lookup)
  have h2: "bobOption1 \<in> set (ewd_timeOptions bobView)"
    by (simp add: bobView_def)
  show ?thesis
    using availabilityCount_buckets [OF h1 h2] h1 h2 by (simp add: bobOption1_def)
qed

text \<open>
  Claim C5, as stated, fails. \<open>createEvent\<close> runs its inserts one after the other with
  no transaction around them: when the connection fails on the second of two time
  options, the caller gets the failure, and the event row and the first time option
  stay in the database.
\<close>

theorem createEvent_partial_state:
  "fst (createEvent ''V1StGXR8_Z'' lunchDraft lunchSlots (initial\<lparr>writesLeft := Some 2\<rparr>)) = Inl DatabaseError
   \<and> events (snd (createEvent ''V1StGXR8_Z'' lunchDraft lunchSlots (initial\<lparr>writesLeft := Some 2\<rparr>))) = [lunchEvent]
   \<and> time_options (snd (createEvent ''V1StGXR8_Z'' lunchDraft lunchSlots (initial\<lparr>writesLeft := Some 2\<rparr>)))
        = [\<lparr>to_id = 1, to_eventId = 1, to_date = ''2024-06-01'', to_startTime = ''12:00'', to_endTime = ''13:00''\<rparr>]
   \<and> length lunchSlots = 2"
  by (simp add: storage_defs initial_def lunchDraft_def lunchSlots_def lunchEvent_def)

text \<open>
  Claim C5, amended. \<open>createEvent\<close> inserts the event row and then the time options
  in input order, without rollback. (1) When the share id is free and the connection
  carries out every insert, it returns the created event; the event row and all time
  options are stored, each tagged with the new event's id, in input order
  (\<open>stored\<close>). (2) When the share id is taken or the connection fails at once, the
  caller gets a failure and the database is unchanged. (3) When the connection fails
  on a time option, after the event row and \<open>k\<close> time options, the caller gets a
  failure, and the event row and those first \<open>k\<close> time options stay stored.
\<close>

theorem createEvent_sequential_inserts:
  "(nanoid \<notin> set (map ev_shareId (events d)) \<and> (\<forall>k. writesLeft d = Some k \<longrightarrow> length ts < k) \<longrightarrow>
      (\<exists>created d'. createEvent nanoid event ts d = (Inr created, d')
          \<and> event.truncate created = newEvent nanoid event d
          \<and> events d' = events d @ [event.truncate created]
          \<and> ewt_timeOptions created = stored (time_options_id_seq d) (ev_id created) ts
          \<and> time_options d' = time_options d @ ewt_timeOptions created))
   \<and> (nanoid \<in> set (map ev_shareId (events d)) \<or> writesLeft d = Some 0 \<longrightarrow>
      createEvent nanoid event ts d = (Inl DatabaseError, d))
   \<and> (nanoid \<notin> set (map ev_shareId (events d)) \<and> writesLeft d = Some (Suc k) \<and> k < length ts \<longrightarrow>
      (\<exists>d'. createEvent nanoid event ts d = (Inl DatabaseError, d')
          \<and> events d' = events d @ [newEvent nanoid event d]
          \<and> time_options d' = time_options d @ stored (time_options_id_seq d) (events_id_seq d + 1) (take k ts)))"
  using createEvent_success [of nanoid d ts event] createEvent_refused [of nanoid d event ts]
    createEvent_partial [of nanoid d k ts event]
  by blast

text \<open>
  The three cases on the Lunch event: all inserts succeed; the share id is taken; the
  connection fails on the second time option.
\<close>

theorem createEvent_sequential_inserts_witness:
  "''V1StGXR8_Z'' \<notin> set (map ev_shareId (events initial))
   \<and> writesLeft initial = None
   \<and> ''V1StGXR8_Z'' \<in> set (map ev_shareId (events lunchDb))
   \<and> length lunchSlots = 2
   \<and> (\<exists>created d'. createEvent ''V1StGXR8_Z'' lunchDraft lunchSlots initial = (Inr created, d')
          \<and> event.truncate created = lunchEvent
          \<and> events d' = [lunchEvent]
          \<and> ewt_timeOptions created = lunchOptions
          \<and> time_options d' = lunchOptions)
   \<and> createEvent ''V1StGXR8_Z'' lunchDraft lunchSlots lunchDb = (Inl DatabaseError, lunchDb)
   \<and> (\<exists>d'. createEvent ''V1StGXR8_Z'' lunchDraft lunchSlots (initial\<lparr>writesLeft := Some 2\<rparr>) = (Inl DatabaseError, d')
          \<and> events d' = [lunchEvent]
          \<and> time_options d' = take 1 lunchOptions)"
proof -
  have new: "newEvent ''V1StGXR8_Z'' lunchDraft initial = lunchEvent"
    "newEvent ''V1StGXR8_Z'' lunchDraft (initial\<lparr>writesLeft := Some 2\<rparr>) = lunchEvent"
    by (simp_all add: newEvent_def lunchDraft_def lunchEvent_def initial_def orNull_def)
  have st: "stored 0 1 lunchSlots = lunchOptions" "stored 0 1 (take 1 lunchSlots) = take 1 lunchOptions"
    by (simp_all add: lunchSlots_def lunchOptions_def)
  have a: "''V1StGXR8_Z'' \<notin> set (map ev_shareId (events initial))
      \<and> (\<forall>k. writesLeft initial = Some k \<longrightarrow> length lunchSlots < k)"
    by (simp add: initial_def)
  have b: "''V1StGXR8_Z'' \<in> set (map ev_shareId (events lunchDb)) \<or> writesLeft lunchDb = Some 0"
    by (simp add: lunchDb_def lunchEvent_def)
  have c: "''V1StGXR8_Z'' \<notin> set (map ev_shareId (events (initial\<lparr>writesLeft := Some 2\<rparr>)))
      \<and> writesLeft (initial\<lparr>writesLeft := Some 2\<rparr>) = Some (Suc 1) \<and> 1 < length lunchSlots"
    by (simp add: initial_def lunchSlots_def)
  from createEvent_sequential_inserts [of "''V1StGXR8_Z''" initial lunchSlots lunchDraft 0] a
  have "\<exists>created d'. createEvent ''V1StGXR8_Z'' lunchDraft lunchSlots initial = (Inr created, d')
          \<and> event.truncate created = newEvent ''V1StGXR8_Z'' lunchDraft initial
          \<and> events d' = events initial @ [event.truncate created]
          \<and> ewt_timeOptions created = stored (time_options_id_seq initial) (ev_id created) lunchSlots
          \<and> time_options d' = time_options initial @ ewt_timeOptions created"
    by blast
  then obtain created d' where A: "createEvent ''V1StGXR8_Z'' lunchDraft lunchSlots initial = (Inr created, d')"
      "event.truncate created = lunchEvent" "events d' = events initial @ [event.truncate created]"
      "ewt_timeOptions created = stored (time_options_id_seq initial) (ev_id created) lunchSlots"
      "time_options d' = time_options initial @ ewt_timeOptions created"
    unfolding new by blast
  have "ev_id created = ev_id (event.truncate created)" by (simp add: event.defs)
  then have "ev_id created = 1" using A(2) by (simp add: lunchEvent_def)
  then have A': "events d' = [lunchEvent]" "ewt_timeOptions created = lunchOptions" "time_options d' = lunchOptions"
    using A(2-5) st by (simp_all add: initial_def)
  from createEvent_sequential_inserts [of "''V1StGXR8_Z''" lunchDb lunchSlots lunchDraft 0] b
  have B: "createEvent ''V1StGXR8_Z'' lunchDraft lunchSlots lunchDb = (Inl DatabaseError, lunchDb)"
    by blast
  from createEvent_sequential_inserts [of "''V1StGXR8_Z''" "initial\<lparr>writesLeft := Some 2\<rparr>" lunchSlots lunchDraft 1] c
  have "\<exists>d'. createEvent ''V1StGXR8_Z'' lunchDraft lunchSlots (initial\<lparr>writesLeft := Some 2\<rparr>) = (Inl DatabaseError, d')
          \<and> events d' = events (initial\<lparr>writesLeft := Some 2\<rparr>) @ [newEvent ''V1StGXR8_Z'' lunchDraft (initial\<lparr>writesLeft := Some 2\<rparr>)]
          \<and> time_options d' = time_options (initial\<lparr>writesLeft := Some 2\<rparr>)
               @ stored (time_options_id_seq (initial\<lparr>writesLeft := Some 2\<rparr>)) (events_id_seq (initial\<lparr>writesLeft := Some 2\<rparr>) + 1) (take 1 lunchSlots)"
    by blast
  then have C: "\<exists>d'. createEvent ''V1StGXR8_Z'' lunchDraft lunchSlots (initial\<lparr>writesLeft := Some 2\<rparr>) = (Inl DatabaseError, d')
          \<and> events d' = [lunchEvent] \<and> time_options d' = take 1 lunchOptions"
    unfolding new using st(2) by (simp add: initial_def)
  have h: "''V1StGXR8_Z'' \<notin> set (map ev_shareId (events initial))" "writesLeft initial = None"
    "''V1StGXR8_Z'' \<in> set (map ev_shareId (events lunchDb))" "length lunchSlots = 2"
    by (simp_all add: initial_def lunchDb_def lunchEvent_def lunchSlots_def)
  show ?thesis using h A(1,2) A' B C by blast
qed

text \<open>
  Claim C6. Two participations in a row for the same share id, both accepted, under
  names that are equal in lower case: the second one resolves to the participant id of
  the first and creates no participant; afterwards that participant's stored responses
  are, in order, exactly the (time option, status) pairs of the second body, whatever
  the first body covered; and the event has as many participants of that name (up to
  case) as before the first participation, or one if it had none. In the states the
  server reaches there is never more than one (\<open>namesakes_reachable\<close>). \<open>w\<close> is
  the state of the connection at the second request.
\<close>

theorem participate_idempotent:
  assumes p1: "participateRequestSchema body1 = Inr parsed1"
    and p2: "participateRequestSchema body2 = Inr parsed2"
    and same: "toLowerCase (pd_name (rq_participant parsed1)) = toLowerCase (pd_name (rq_participant parsed2))"
    and s1: "post_participate toLowerCase shareId body1 d = (Json reply1, d1)"
    and s2: "post_participate toLowerCase shareId body2 (d1\<lparr>writesLeft := w\<rparr>) = (Json reply2, d2)"
  shows "pr_participantId reply2 = pr_participantId reply1
    \<and> participants d2 = participants d1
    \<and> map answer (responsesOf (pr_participantId reply1) d2) = map submitted (rq_availability parsed2)
    \<and> (\<exists>event. getEventByShareId shareId d = Some event
          \<and> length (namesakes toLowerCase (ev_id event) (pd_name (rq_participant parsed1)) d2)
              = max 1 (length (namesakes toLowerCase (ev_id event) (pd_name (rq_participant parsed1)) d)))"
proof -
  let ?name1 = "pd_name (rq_participant parsed1)" and ?name2 = "pd_name (rq_participant parsed2)"
  let ?pid1 = "pr_participantId reply1" and ?pid2 = "pr_participantId reply2"
  let ?d1w = "d1\<lparr>writesLeft := w\<rparr>"
  from post_participate_ok [OF s1] p1 obtain event dA u where
    ev: "getEventByShareId shareId d = Some event"
    and r1: "resolveParticipant toLowerCase (rq_participant parsed1) (ev_id event) d = (Inr ?pid1, dA)"
    and a1: "setAvailability ?pid1 (rq_availability parsed1) dA = (Inr u, d1)"
    by auto
  from post_participate_ok [OF s2] p2 obtain event' dB u' where
    ev': "getEventByShareId shareId ?d1w = Some event'"
    and r2: "resolveParticipant toLowerCase (rq_participant parsed2) (ev_id event') ?d1w = (Inr ?pid2, dB)"
    and a2: "setAvailability ?pid2 (rq_availability parsed2) dB = (Inr u', d2)"
    by auto
  let ?eid = "ev_id event"
  have "events ?d1w = events d"
    using setAvailability_ok(2) [OF a1] resolveParticipant_tables(1) [OF r1] by simp
  then have eid: "ev_id event' = ?eid" using ev ev' by (rule getEventByShareId_ev_id)
  have parts1: "participants ?d1w = participants dA"
    using setAvailability_ok(4) [OF a1] by simp
  let ?P1 = "\<lambda>p. toLowerCase (pt_name p) = toLowerCase ?name1"
  have pred: "(\<lambda>p. toLowerCase (pt_name p) = toLowerCase ?name2) = ?P1"
    using same by simp
  have G: "getParticipantsByEventId ?eid ?d1w = getParticipantsByEventId ?eid dA"
    using parts1 by (simp add: getParticipantsByEventId_def)
  have N: "namesakes toLowerCase ?eid ?name1 d2 = namesakes toLowerCase ?eid ?name1 dA"
    if "dB = ?d1w"
    using that setAvailability_ok(4) [OF a2] parts1 by (simp add: namesakes_def)
  from resolveParticipant_ok [OF r1]
  consider (old) p where "List.find ?P1 (getParticipantsByEventId ?eid d) = Some p" "?pid1 = pt_id p" "dA = d"
    | (new) "List.find ?P1 (getParticipantsByEventId ?eid d) = None"
        "participants dA = participants d @ [\<lparr>pt_id = ?pid1, pt_eventId = ?eid, pt_name = ?name1\<rparr>]"
    by (elim disjE exE conjE) simp_all
  then have found: "\<exists>p. List.find ?P1 (getParticipantsByEventId ?eid dA) = Some p \<and> pt_id p = ?pid1
      \<and> length (namesakes toLowerCase ?eid ?name1 dA) = max 1 (length (namesakes toLowerCase ?eid ?name1 d))"
  proof cases
    case old
    have "filter ?P1 (getParticipantsByEventId ?eid d) \<noteq> []"
      using old(1) by (rule find_Some_filter)
    then have "length (namesakes toLowerCase ?eid ?name1 d) \<ge> 1"
      unfolding namesakes_filter by (simp add: Suc_leI)
    then show ?thesis using old by (simp add: max_def)
  next
    case new
    let ?row = "\<lparr>pt_id = ?pid1, pt_eventId = ?eid, pt_name = ?name1\<rparr>"
    have g: "getParticipantsByEventId ?eid dA = getParticipantsByEventId ?eid d @ [?row]"
      using new(2) by (simp add: getParticipantsByEventId_def)
    have "List.find ?P1 (getParticipantsByEventId ?eid d @ [?row]) = Some ?row"
      using new(1) by (rule find_append_new) simp
    moreover have "filter ?P1 (getParticipantsByEventId ?eid d) = []"
      using new(1) by (rule find_None_filter)
    ultimately show ?thesis
      unfolding namesakes_filter g by simp
  qed
  then obtain p where p: "List.find ?P1 (getParticipantsByEventId ?eid dA) = Some p" "pt_id p = ?pid1"
    and count: "length (namesakes toLowerCase ?eid ?name1 dA) = max 1 (length (namesakes toLowerCase ?eid ?name1 d))"
    by blast
  have p': "List.find (\<lambda>p. toLowerCase (pt_name p) = toLowerCase ?name2) (getParticipantsByEventId (ev_id event') ?d1w) = Some p"
    unfolding pred eid G by (rule p(1))
  from resolveParticipant_ok [OF r2] p' have second: "?pid2 = pt_id p" "dB = ?d1w"
    by auto
  have same_id: "?pid2 = ?pid1" using second(1) p(2) by simp
  have "participants d2 = participants dB" using setAvailability_ok(4) [OF a2] .
  then have parts: "participants d2 = participants d1" using second(2) by simp
  have answers: "map answer (responsesOf ?pid1 d2) = map submitted (rq_availability parsed2)"
    using setAvailability_responsesOf [OF a2] same_id by simp
  have "length (namesakes toLowerCase ?eid ?name1 d2) = max 1 (length (namesakes toLowerCase ?eid ?name1 d))"
    using N [OF second(2)] count by simp
  then show ?thesis using same_id parts answers ev by simp
qed

text \<open>
  "Alice" answers both options, then "alice" answers the first one only: one participant,
  id 1 both times, and the one response of the second body is all that is stored.
\<close>

theorem participate_idempotent_witness:
  "participateRequestSchema (participateBody ''Alice'' [(1, ''available''), (2, ''maybe'')])
     = Inr \<lparr>rq_participant = \<lparr>pd_name = ''Alice''\<rparr>,
            rq_availability = [\<lparr>ai_timeOptionId = 1, ai_status = ''available''\<rparr>,
                               \<lparr>ai_timeOptionId = 2, ai_status = ''maybe''\<rparr>]\<rparr>
   \<and> participateRequestSchema aliceAgain
     = Inr \<lparr>rq_participant = \<lparr>pd_name = ''alice''\<rparr>,
            rq_availability = [\<lparr>ai_timeOptionId = 1, ai_status = ''unavailable''\<rparr>]\<rparr>
   \<and> asciiLower ''Alice'' = asciiLower ''alice''
   \<and> post_participate asciiLower ''V1StGXR8_Z'' (participateBody ''Alice'' [(1, ''available''), (2, ''maybe'')]) lunchDb
     = (Json \<lparr>pr_success = True, pr_participantId = 1\<rparr>, aliceDb)
   \<and> post_participate asciiLower ''V1StGXR8_Z'' aliceAgain (aliceDb\<lparr>writesLeft := None\<rparr>)
     = (Json \<lparr>pr_success = True, pr_participantId = 1\<rparr>, aliceDb2)
   \<and> participants aliceDb2 = [\<lparr>pt_id = 1, pt_eventId = 1, pt_name = ''Alice''\<rparr>]
   \<and> map answer (responsesOf 1 aliceDb2) = [(1, ''unavailable'')]
   \<and> length (namesakes asciiLower 1 ''Alice'' aliceDb2) = 1"
proof -
  have same: "asciiLower (pd_name (rq_participant \<lparr>rq_participant = \<lparr>pd_name = ''Alice''\<rparr>,
            rq_availability = [\<lparr>ai_timeOptionId = 1, ai_status = ''available''\<rparr>,
                               \<lparr>ai_timeOptionId = 2, ai_status = ''maybe''\<rparr>]\<rparr>))
      = asciiLower (pd_name (rq_participant \<lparr>rq_participant = \<lparr>pd_name = ''alice''\<rparr>,
            rq_availability = [\<lparr>ai_timeOptionId = 1, ai_status = ''unavailable''\<rparr>]\<rparr>))"
    by (simp add: asciiLower_alice)
  have ev: "ev_id event = 1" if "getEventByShareId ''V1StGXR8_Z'' lunchDb = Some event" for event
    using that unfolding lunch_lookup by auto
  have n0: "namesakes asciiLower 1 ''Alice'' lunchDb = []"
    by (simp add: namesakes_def lunchDb_def)
  show ?thesis
    using participate_idempotent [OF alice_parsed aliceAgain_parsed same alice_first alice_second]
      alice_parsed aliceAgain_parsed alice_first alice_second ev n0
    by (auto simp: asciiLower_alice submitted_def aliceDb2_def aliceDb_def)
qed

text \<open>
  Claim C7, as stated, fails. Neither the request schema nor \<open>setAvailability\<close> nor
  the table asks that a body names a time option once: a body that names time option 1
  twice leaves two response rows for the pair (participant 1, time option 1).
\<close>

theorem two_responses_for_one_pair:
  "availability (run asciiLower twiceRun initial)
     = [\<lparr>av_id = 1, av_participantId = 1, av_timeOptionId = 1, av_status = ''available''\<rparr>,
        \<lparr>av_id = 2, av_participantId = 1, av_timeOptionId = 1, av_status = ''maybe''\<rparr>]
   \<and> length (pairRows 1 1 (run asciiLower twiceRun initial)) = 2"
  by (simp add: pairRows_def run_def twiceRun_def writesLeft_None lunch_created twice_participates)

text \<open>
  Claim C7, amended. (1) When requests are handled one at a time (\<open>run\<close>): in every
  state reached from the empty database through requests whose participate bodies name
  each time option at most once (\<open>oncePerTimeOption\<close>), whatever the failures of
  the connection were, there is at most one response row for every participant \<open>p\<close>
  and time option \<open>t\<close>. (2) In any database, after an accepted participate call
  the participant has, for every time option, as many rows as the body mentions that
  time option: one row per mention. (3) When two calls of \<open>setAvailability\<close> for
  one participant overlap so that both deletes run before both inserts, which is an
  interleaving of the statements the two calls issue, the rows of both lists stay: the
  participant has, for every time option, as many rows as the two lists together
  mention it, hence two for a time option that each list names once.
\<close>

theorem at_most_one_response_per_pair:
  "(list_all oncePerTimeOption requests \<longrightarrow>
      length (pairRows p t (run toLowerCase requests initial)) \<le> 1)
   \<and> (post_participate toLowerCase shareId body d = (Json reply, d')
        \<and> participateRequestSchema body = Inr parsed \<longrightarrow>
      length (pairRows (pr_participantId reply) t d')
        = count_list (map ai_timeOptionId (rq_availability parsed)) t)
   \<and> (writesLeft d = None \<and> items1 \<noteq> [] \<and> items2 \<noteq> [] \<longrightarrow>
      setAvailability p items1 d = (Inr (), fold execute (statementsOf p items1) d)
      \<and> [Delete p, Delete p, Insert p items1, Insert p items2]
           \<in> set (interleavings (statementsOf p items1) (statementsOf p items2))
      \<and> length (pairRows p t (fold execute [Delete p, Delete p, Insert p items1, Insert p items2] d))
           = count_list (map ai_timeOptionId items1) t + count_list (map ai_timeOptionId items2) t)"
proof (intro conjI impI)
  assume ok: "list_all oncePerTimeOption requests"
  have "onePerPair initial" by (simp add: onePerPair_def initial_def)
  then have "onePerPair (run toLowerCase requests initial)"
    using ok by (rule onePerPair_run)
  then have "length (filter (\<lambda>a. (av_participantId a, av_timeOptionId a) = (p, t))
                  (availability (run toLowerCase requests initial))) \<le> 1"
    unfolding onePerPair_def by (rule distinct_key_at_most_one)
  then show "length (pairRows p t (run toLowerCase requests initial)) \<le> 1"
    by (simp add: pairRows_def)
next
  assume "post_participate toLowerCase shareId body d = (Json reply, d')
        \<and> participateRequestSchema body = Inr parsed"
  then show "length (pairRows (pr_participantId reply) t d')
        = count_list (map ai_timeOptionId (rq_availability parsed)) t"
    using post_participate_mentions by blast
next
  assume a: "writesLeft d = None \<and> items1 \<noteq> [] \<and> items2 \<noteq> []"
  then show "setAvailability p items1 d = (Inr (), fold execute (statementsOf p items1) d)"
    using setAvailability_statements by blast
  show "[Delete p, Delete p, Insert p items1, Insert p items2]
           \<in> set (interleavings (statementsOf p items1) (statementsOf p items2))"
    using a overlap_is_interleaving by blast
  show "length (pairRows p t (fold execute [Delete p, Delete p, Insert p items1, Insert p items2] d))
           = count_list (map ai_timeOptionId items1) t + count_list (map ai_timeOptionId items2) t"
    using a overlap_rows by blast
qed

text \<open>
  After the round trip, participant 1 has exactly one response for time option 1. The
  body that names time option 1 twice leaves two rows for it and none for time option
  2. Two overlapping calls for participant 1, each naming time option 1 once, leave two
  rows for the pair.
\<close>

theorem at_most_one_response_per_pair_witness:
  "list_all oncePerTimeOption roundTrip
   \<and> length (pairRows 1 1 (run asciiLower roundTrip initial)) \<le> 1
   \<and> pairRows 1 1 (run asciiLower roundTrip initial)
       = [\<lparr>av_id = 1, av_participantId = 1, av_timeOptionId = 1, av_status = ''available''\<rparr>]
   \<and> post_participate asciiLower ''V1StGXR8_Z'' twiceBody lunchDb
       = (Json \<lparr>pr_success = True, pr_participantId = 1\<rparr>, snd (post_participate asciiLower ''V1StGXR8_Z'' twiceBody lunchDb))
   \<and> length (pairRows 1 1 (snd (post_participate asciiLower ''V1StGXR8_Z'' twiceBody lunchDb))) = 2
   \<and> length (pairRows 1 2 (snd (post_participate asciiLower ''V1StGXR8_Z'' twiceBody lunchDb))) = 0
   \<and> writesLeft bobDb = None \<and> once1 \<noteq> [] \<and> once2 \<noteq> []
   \<and> distinct (map ai_timeOptionId once1) \<and> distinct (map ai_timeOptionId once2)
   \<and> [Delete 1, Delete 1, Insert 1 once1, Insert 1 once2]
        \<in> set (interleavings (statementsOf 1 once1) (statementsOf 1 once2))
   \<and> length (pairRows 1 1 (fold execute [Delete 1, Delete 1, Insert 1 once1, Insert 1 once2] bobDb)) = 2"
proof -
  have h: "list_all oncePerTimeOption roundTrip"
    by (simp add: roundTrip_def distinctTimeOptionIds_def bob_parsed)
  have s: "post_participate asciiLower ''V1StGXR8_Z'' twiceBody lunchDb
       = (Json \<lparr>pr_success = True, pr_participantId = 1\<rparr>, snd (post_participate asciiLower ''V1StGXR8_Z'' twiceBody lunchDb))"
    by (simp add: twice_participates)
  have o: "writesLeft bobDb = None \<and> once1 \<noteq> [] \<and> once2 \<noteq> []"
    by (simp add: bobDb_def lunchDb_def once1_def once2_def)
  have dd: "distinct (map ai_timeOptionId once1)" "distinct (map ai_timeOptionId once2)"
    by (simp_all add: once1_def once2_def)
  note t1 = at_most_one_response_per_pair
    [of roundTrip 1 1 asciiLower "''V1StGXR8_Z''" twiceBody lunchDb "\<lparr>pr_success = True, pr_participantId = 1\<rparr>"
        "snd (post_participate asciiLower ''V1StGXR8_Z'' twiceBody lunchDb)"
        "\<lparr>rq_participant = \<lparr>pd_name = ''Bob''\<rparr>,
            rq_availability = [\<lparr>ai_timeOptionId = 1, ai_status = ''available''\<rparr>,
                               \<lparr>ai_timeOptionId = 1, ai_status = ''maybe''\<rparr>]\<rparr>"]
  note t2 = at_most_one_response_per_pair
    [of roundTrip 1 2 asciiLower "''V1StGXR8_Z''" twiceBody lunchDb "\<lparr>pr_success = True, pr_participantId = 1\<rparr>"
        "snd (post_participate asciiLower ''V1StGXR8_Z'' twiceBody lunchDb)"
        "\<lparr>rq_participant = \<lparr>pd_name = ''Bob''\<rparr>,
            rq_availability = [\<lparr>ai_timeOptionId = 1, ai_status = ''available''\<rparr>,
                               \<lparr>ai_timeOptionId = 1, ai_status = ''maybe''\<rparr>]\<rparr>"]
  note t3 = at_most_one_response_per_pair [where d = bobDb and p = 1 and t = 1 and ?items1.0 = once1 and ?items2.0 = once2]
  have A: "length (pairRows 1 1 (run asciiLower roundTrip initial)) \<le> 1"
    using t1 h by blast
  have A': "pairRows 1 1 (run asciiLower roundTrip initial)
       = [\<lparr>av_id = 1, av_participantId = 1, av_timeOptionId = 1, av_status = ''available''\<rparr>]"
    by (simp add: roundTrip_run bobDb_def pairRows_def)
  have B: "length (pairRows 1 1 (snd (post_participate asciiLower ''V1StGXR8_Z'' twiceBody lunchDb))) = 2"
    using t1 s twice_parsed by simp
  have B': "length (pairRows 1 2 (snd (post_participate asciiLower ''V1StGXR8_Z'' twiceBody lunchDb))) = 0"
    using t2 s twice_parsed by simp
  have C: "[Delete 1, Delete 1, Insert 1 once1, Insert 1 once2]
        \<in> set (interleavings (statementsOf 1 once1) (statementsOf 1 once2))"
    using t3 o by blast
  have "length (pairRows 1 1 (fold execute [Delete 1, Delete 1, Insert 1 once1, Insert 1 once2] bobDb))
      = count_list (map ai_timeOptionId once1) 1 + count_list (map ai_timeOptionId once2) 1"
    using t3 o by blast
  then have C': "length (pairRows 1 1 (fold execute [Delete 1, Delete 1, Insert 1 once1, Insert 1 once2] bobDb)) = 2"
    by (simp add: once1_def once2_def)
  show ?thesis using h s o dd A A' B B' C C' by simp
qed

text \<open>
  Claim C8, as stated, fails. \<open>createEventRequestSchema\<close> takes
  \<^verbatim>\<open>z.array(...)\<close> with no lower bound on the length, and \<open>createEvent\<close> asks for
  none: the request with \<^verbatim>\<open>timeOptions: []\<close> is answered 200 and its event is
  stored with no time option.
\<close>

theorem post_events_empty_timeOptions_accepted:
  "fst (post_events ''V1StGXR8_Z'' emptyBody initial)
     = Json \<lparr>ev_id = 1, ev_title = ''Lunch'', ev_description = None, ev_duration = ''1 hour'',
              ev_shareId = ''V1StGXR8_Z'', ewt_timeOptions = []\<rparr>
   \<and> events (snd (post_events ''V1StGXR8_Z'' emptyBody initial)) = [lunchEvent]
   \<and> time_options (snd (post_events ''V1StGXR8_Z'' emptyBody initial)) = []"
  by (simp add: post_events_def emptyBody_parsed storage_defs initial_def lunchDraft_def lunchEvent_def)

text \<open>
  Claim C8, amended. A non-empty time-option list is required by the create-event
  form, not by the server. (1) A create-event request that passes the schema with an
  empty list, on a free share id and a working connection, is answered with the
  created event, which has no time options; the event row is stored and no time
  option is. (2) The form sends nothing when none of its time options is complete.
  (3) Every request the form sends passes the schema with a non-empty list.
\<close>

theorem post_events_without_timeOptions:
  "(createEventRequestSchema body = Inr parsed \<and> rq_timeOptions parsed = []
      \<and> nanoid \<notin> set (map ev_shareId (events d)) \<and> writesLeft d \<noteq> Some 0 \<longrightarrow>
      (\<exists>created d'. post_events nanoid body d = (Json created, d')
        \<and> event.truncate created = newEvent nanoid (rq_event parsed) d
        \<and> ewt_timeOptions created = []
        \<and> events d' = events d @ [newEvent nanoid (rq_event parsed) d]
        \<and> time_options d' = time_options d))
   \<and> (validTimeOptions (fd_duration data) formOptions = [] \<longrightarrow>
        onSubmit calculateEndTime data formOptions = None)
   \<and> (\<forall>sent. onSubmit calculateEndTime data formOptions = Some sent \<longrightarrow>
        (\<exists>accepted. createEventRequestSchema sent = Inr accepted \<and> rq_timeOptions accepted \<noteq> []))"
proof (intro conjI impI allI)
  assume a: "createEventRequestSchema body = Inr parsed \<and> rq_timeOptions parsed = []
      \<and> nanoid \<notin> set (map ev_shareId (events d)) \<and> writesLeft d \<noteq> Some 0"
  then have "\<forall>k. writesLeft d = Some k \<longrightarrow> length (rq_timeOptions parsed) < k"
    by auto
  from createEvent_success [OF _ this, of nanoid "rq_event parsed"] a
  obtain created d' where c: "createEvent nanoid (rq_event parsed) (rq_timeOptions parsed) d = (Inr created, d')"
    "event.truncate created = newEvent nanoid (rq_event parsed) d"
    "events d' = events d @ [event.truncate created]"
    "ewt_timeOptions created = stored (time_options_id_seq d) (ev_id created) (rq_timeOptions parsed)"
    "time_options d' = time_options d @ ewt_timeOptions created"
    by blast
  have "post_events nanoid body d = (Json created, d')"
    using a c(1) by (simp add: post_events_def)
  then show "\<exists>created d'. post_events nanoid body d = (Json created, d')
        \<and> event.truncate created = newEvent nanoid (rq_event parsed) d
        \<and> ewt_timeOptions created = []
        \<and> events d' = events d @ [newEvent nanoid (rq_event parsed) d]
        \<and> time_options d' = time_options d"
    using c(2-5) a by simp
next
  assume "validTimeOptions (fd_duration data) formOptions = []"
  then show "onSubmit calculateEndTime data formOptions = None" by (rule onSubmit_refuses)
next
  fix sent assume "onSubmit calculateEndTime data formOptions = Some sent"
  from onSubmit_parsed [OF this]
  show "\<exists>accepted. createEventRequestSchema sent = Inr accepted \<and> rq_timeOptions accepted \<noteq> []"
    by blast
qed

text \<open>
  The Lunch event with no time options, posted to the empty database; the form with one
  blank time option, which sends nothing; the form with one complete and one blank time
  option, which sends a request with a non-empty list.
\<close>

theorem post_events_without_timeOptions_witness:
  "createEventRequestSchema emptyBody = Inr \<lparr>rq_event = lunchDraft, rq_timeOptions = []\<rparr>
   \<and> ''V1StGXR8_Z'' \<notin> set (map ev_shareId (events initial))
   \<and> writesLeft initial \<noteq> Some 0
   \<and> (\<exists>created d'. post_events ''V1StGXR8_Z'' emptyBody initial = (Json created, d')
        \<and> event.truncate created = lunchEvent
        \<and> ewt_timeOptions created = []
        \<and> events d' = [lunchEvent]
        \<and> time_options d' = [])
   \<and> validTimeOptions (fd_duration lunchFormData) emptyForm = []
   \<and> onSubmit (\<lambda>startTime duration. ''13:00'') lunchFormData emptyForm = None
   \<and> (\<exists>sent accepted. onSubmit (\<lambda>startTime duration. ''13:00'') lunchFormData lunchForm = Some sent
        \<and> createEventRequestSchema sent = Inr accepted
        \<and> rq_timeOptions accepted \<noteq> [])"
proof -
  have h: "createEventRequestSchema emptyBody = Inr \<lparr>rq_event = lunchDraft, rq_timeOptions = []\<rparr>
      \<and> rq_timeOptions \<lparr>rq_event = lunchDraft, rq_timeOptions = []\<rparr> = []
      \<and> ''V1StGXR8_Z'' \<notin> set (map ev_shareId (events initial)) \<and> writesLeft initial \<noteq> Some 0"
    by (simp add: emptyBody_parsed initial_def)
  have v: "validTimeOptions (fd_duration lunchFormData) emptyForm = []"
    by (simp add: validTimeOptions_def emptyForm_def)
  have s: "\<exists>sent. onSubmit (\<lambda>startTime duration. ''13:00'') lunchFormData lunchForm = Some sent"
    by (simp add: onSubmit_def validTimeOptions_def lunchForm_def)
  have new: "newEvent ''V1StGXR8_Z'' lunchDraft initial = lunchEvent"
    by (simp add: newEvent_def lunchDraft_def lunchEvent_def initial_def orNull_def)
  note t = post_events_without_timeOptions
    [of emptyBody "\<lparr>rq_event = lunchDraft, rq_timeOptions = []\<rparr>" "''V1StGXR8_Z''" initial
        lunchFormData emptyForm "\<lambda>startTime duration. ''13:00''"]
  note t' = post_events_without_timeOptions
    [of emptyBody "\<lparr>rq_event = lunchDraft, rq_timeOptions = []\<rparr>" "''V1StGXR8_Z''" initial
        lunchFormData lunchForm "\<lambda>startTime duration. ''13:00''"]
  have A: "\<exists>created d'. post_events ''V1StGXR8_Z'' emptyBody initial = (Json created, d')
        \<and> event.truncate created = lunchEvent
        \<and> ewt_timeOptions created = []
        \<and> events d' = [lunchEvent]
        \<and> time_options d' = []"
    using t h by (simp add: new) (simp add: initial_def)
  have B: "onSubmit (\<lambda>startTime duration. ''13:00'') lunchFormData emptyForm = None"
    using t v by blast
  have C: "\<exists>sent accepted. onSubmit (\<lambda>startTime duration. ''13:00'') lunchFormData lunchForm = Some sent
        \<and> createEventRequestSchema sent = Inr accepted
        \<and> rq_timeOptions accepted \<noteq> []"
    using t' s by blast
  show ?thesis using h v A B C by blast
qed



end
